theory Spec2Isabelle
  imports Complex_Main
begin

section \<open>Text primitives of the host language\<close>

text \<open>
  The debugger of \<^verbatim>\<open>decompiler_advanced.py\<close> works on Python strings. A string is
  modelled as a list of characters; the character classes below are the ones the regular
  expressions and \<^verbatim>\<open>str.strip\<close> use, restricted to the code points a \<^typ>\<open>char\<close> can hold
  (0 to 255). Python integers are unbounded and are modelled by \<^typ>\<open>int\<close>; the limit some
  interpreters put on the number of digits \<^verbatim>\<open>int()\<close> converts is a configuration of the
  interpreter and is not part of the model.
\<close>

definition is_space :: "char \<Rightarrow> bool" where
  \<comment> \<open>\<^verbatim>\<open>\s\<close> and \<^verbatim>\<open>str.isspace\<close>: tab to carriage return, the four separators
      0x1C to 0x1F, blank, NEL and the no-break space.\<close>
  "is_space c \<longleftrightarrow> c \<in> set [CHR 0x09, CHR 0x0A, CHR 0x0B, CHR 0x0C, CHR 0x0D,
     CHR 0x1C, CHR 0x1D, CHR 0x1E, CHR 0x1F, CHR 0x20, CHR 0x85, CHR 0xA0]"

definition is_digit :: "char \<Rightarrow> bool" where
  \<comment> \<open>\<^verbatim>\<open>\d\<close>\<close>
  "is_digit c \<longleftrightarrow> c \<in> set ''0123456789''"

definition is_alpha_us :: "char \<Rightarrow> bool" where
  \<comment> \<open>the class \<^verbatim>\<open>[a-zA-Z_]\<close>\<close>
  "is_alpha_us c \<longleftrightarrow> c \<in> set ''abcdefghijklmnopqrstuvwxyzABCDEFGHIJKLMNOPQRSTUVWXYZ_''"

definition digit_val :: "char \<Rightarrow> int" where
  "digit_val c = int (of_char c) - 48"

definition digits_to_int :: "string \<Rightarrow> int" where
  \<comment> \<open>\<^verbatim>\<open>int(ds)\<close> for a nonempty run of decimal digits\<close>
  "digits_to_int ds = foldl (\<lambda>acc c. 10 * acc + digit_val c) 0 ds"

definition strip :: "string \<Rightarrow> string" where
  "strip s = rev (dropWhile is_space (rev (dropWhile is_space s)))"

fun starts_with :: "string \<Rightarrow> string \<Rightarrow> bool" where
  \<comment> \<open>\<^verbatim>\<open>text.startswith(pat)\<close>, pattern first\<close>
  "starts_with [] t = True"
| "starts_with (p # ps) [] = False"
| "starts_with (p # ps) (c # cs) = (p = c \<and> starts_with ps cs)"

fun contains :: "string \<Rightarrow> string \<Rightarrow> bool" where
  \<comment> \<open>\<^verbatim>\<open>pat in text\<close>, pattern first\<close>
  "contains pat [] = (pat = [])"
| "contains pat (c # cs) = (starts_with pat (c # cs) \<or> contains pat cs)"

fun split_nl :: "string \<Rightarrow> string list" where
  \<comment> \<open>\<^verbatim>\<open>text.split('\n')\<close>: always at least one piece\<close>
  "split_nl [] = [[]]"
| "split_nl (c # cs) =
     (if c = CHR 0x0A then [] # split_nl cs
      else (case split_nl cs of [] \<Rightarrow> [[c]] | l # ls \<Rightarrow> (c # l) # ls))"

fun join :: "string \<Rightarrow> string list \<Rightarrow> string" where
  \<comment> \<open>\<^verbatim>\<open>sep.join(xs)\<close>\<close>
  "join sep [] = []"
| "join sep [x] = x"
| "join sep (x # y # ys) = x @ sep @ join sep (y # ys)"

fun str_nat :: "nat \<Rightarrow> string" where
  "str_nat n = (if n < 10 then [char_of (48 + n)]
                else str_nat (n div 10) @ [char_of (48 + n mod 10)])"

declare str_nat.simps [simp del]

definition str_int :: "int \<Rightarrow> string" where
  \<comment> \<open>\<^verbatim>\<open>str(i)\<close> for an integer\<close>
  "str_int i = (if i < 0 then CHR ''-'' # str_nat (nat (- i)) else str_nat (nat i))"

section \<open>The disassembly parser\<close>

record instruction =
  offset :: int
  opcode :: string
  operands :: string
  line :: "int option"

definition match_line_at :: "string \<Rightarrow> int option" where
  \<comment> \<open>the pattern \<^verbatim>\<open>line (\d+):\<close> tried at the start of the text; the digit run is
      followed by a colon only when it is taken whole\<close>
  "match_line_at s =
     (if starts_with ''line '' s then
        (let r = drop 5 s; ds = takeWhile is_digit r in
         if ds \<noteq> [] \<and> starts_with '':'' (dropWhile is_digit r)
         then Some (digits_to_int ds) else None)
      else None)"

fun search_line :: "string \<Rightarrow> int option" where
  \<comment> \<open>\<^verbatim>\<open>re.search(r"line (\d+):", line)\<close>, group 1 of the leftmost match as an integer\<close>
  "search_line [] = None"
| "search_line (c # cs) =
     (case match_line_at (c # cs) of Some n \<Rightarrow> Some n | None \<Rightarrow> search_line cs)"

fun before_comment :: "string \<Rightarrow> string" where
  \<comment> \<open>what the lazy \<^verbatim>\<open>(.*?)\<close> takes in front of \<^verbatim>\<open>(?://.*)?$\<close>: the text up to the
      first \<^verbatim>\<open>//\<close>, all of it when there is none\<close>
  "before_comment [] = []"
| "before_comment (c # cs) =
     (if c = CHR ''/'' \<and> starts_with ''/'' cs then [] else c # before_comment cs)"

definition instr_match :: "string \<Rightarrow> (string \<times> string \<times> string) option" where
  \<comment> \<open>\<^verbatim>\<open>re.search(r"^\s*(\d+): ([a-zA-Z_]+)(.*?)(?://.*)?$", line)\<close>: groups 1, 2, 3\<close>
  "instr_match l =
     (let s1 = dropWhile is_space l; ds = takeWhile is_digit s1; s2 = dropWhile is_digit s1 in
      if ds \<noteq> [] \<and> starts_with '': '' s2 then
        (let s3 = drop 2 s2; op = takeWhile is_alpha_us s3 in
         if op \<noteq> [] then Some (ds, op, before_comment (dropWhile is_alpha_us s3)) else None)
      else None)"

fun parse_loop :: "instruction list \<Rightarrow> int option \<Rightarrow> string list \<Rightarrow> instruction list" where
  \<comment> \<open>the \<^verbatim>\<open>for line in bytecode.split('\n')\<close> of \<^verbatim>\<open>parse_bytecode\<close>, with its two
      locals \<^verbatim>\<open>instructions\<close> and \<^verbatim>\<open>current_line\<close>\<close>
  "parse_loop instrs cur [] = instrs"
| "parse_loop instrs cur (l # ls) =
     (let cur' = (case search_line l of Some n \<Rightarrow> Some n | None \<Rightarrow> cur) in
      case instr_match l of
        Some (ds, op, rest) \<Rightarrow>
          parse_loop (instrs @ [\<lparr>offset = digits_to_int ds, opcode = op,
                                 operands = strip rest, line = cur'\<rparr>]) cur' ls
      | None \<Rightarrow> parse_loop instrs cur' ls)"

definition parse_bytecode :: "string \<Rightarrow> instruction list" where
  "parse_bytecode bytecode = parse_loop [] None (split_nl bytecode)"

section \<open>The constant pool extractor\<close>

datatype error = AttributeError | ValueError | TypeError | ZeroDivisionError | OverflowError
  | MemoryError | NotModelled

text \<open>
  The first six are exceptions of the host language. \<^const>\<open>NotModelled\<close> is not an exception:
  it marks the one place where the host language would compute a floating-point value, which
  this development has no type for. That place is shown never to be reached
  (\<open>py_float_no_hash\<close>, \<open>ldc_equation\<close>).
\<close>

definition lit :: "string \<Rightarrow> string \<Rightarrow> string option" where
  \<comment> \<open>a literal piece of a pattern: the rest of the text behind it\<close>
  "lit pat s = (if starts_with pat s then Some (drop (length pat) s) else None)"

definition digits1 :: "string \<Rightarrow> string option" where
  \<comment> \<open>\<^verbatim>\<open>\d+\<close> in front of something that is no digit\<close>
  "digits1 s = (if takeWhile is_digit s \<noteq> [] then Some (dropWhile is_digit s) else None)"

definition ws1 :: "string \<Rightarrow> string option" where
  \<comment> \<open>\<^verbatim>\<open>\s+\<close> in front of something that is no white space\<close>
  "ws1 s = (if takeWhile is_space s \<noteq> [] then Some (dropWhile is_space s) else None)"

definition ws_then_any :: "string \<Rightarrow> string option" where
  \<comment> \<open>\<^verbatim>\<open>\s+(.+)$\<close>: the white space is taken whole when text follows it; when the line
      ends in it, the last white-space character is given back to the group\<close>
  "ws_then_any s =
     (let w = takeWhile is_space s; r = dropWhile is_space s in
      if w = [] then None
      else if r \<noteq> [] then Some r
      else if 2 \<le> length w then Some [last w]
      else None)"

definition string_match_at :: "string \<Rightarrow> string option" where
  \<comment> \<open>\<^verbatim>\<open>#\d+\s+=\s+String\s+#\d+\s+//\s+(.+)$\<close> tried at the start of the text\<close>
  "string_match_at s =
     Option.bind (lit ''#'' s) (\<lambda>s. Option.bind (digits1 s) (\<lambda>s. Option.bind (ws1 s)
     (\<lambda>s. Option.bind (lit ''='' s) (\<lambda>s. Option.bind (ws1 s) (\<lambda>s. Option.bind (lit ''String'' s)
     (\<lambda>s. Option.bind (ws1 s) (\<lambda>s. Option.bind (lit ''#'' s) (\<lambda>s. Option.bind (digits1 s)
     (\<lambda>s. Option.bind (ws1 s) (\<lambda>s. Option.bind (lit ''//'' s) ws_then_any))))))))))"

definition utf8_match_at :: "string \<Rightarrow> string option" where
  \<comment> \<open>\<^verbatim>\<open>#\d+\s+=\s+Utf8\s+(.+)$\<close> tried at the start of the text\<close>
  "utf8_match_at s =
     Option.bind (lit ''#'' s) (\<lambda>s. Option.bind (digits1 s) (\<lambda>s. Option.bind (ws1 s)
     (\<lambda>s. Option.bind (lit ''='' s) (\<lambda>s. Option.bind (ws1 s) (\<lambda>s. Option.bind (lit ''Utf8'' s)
     ws_then_any)))))"

fun search_first :: "(string \<Rightarrow> 'a option) \<Rightarrow> string \<Rightarrow> 'a option" where
  \<comment> \<open>\<^verbatim>\<open>re.search\<close> for a pattern that matches no empty text: the leftmost position
      where the pattern matches\<close>
  "search_first m [] = None"
| "search_first m (c # cs) =
     (case m (c # cs) of Some v \<Rightarrow> Some v | None \<Rightarrow> search_first m cs)"

definition hash_at :: "string \<Rightarrow> int option" where
  \<comment> \<open>\<^verbatim>\<open>#(\d+)\<close> tried at the start of the text\<close>
  "hash_at s = (case s of [] \<Rightarrow> None
     | c # cs \<Rightarrow> if c = CHR ''#'' \<and> takeWhile is_digit cs \<noteq> []
                then Some (digits_to_int (takeWhile is_digit cs)) else None)"

definition search_hash :: "string \<Rightarrow> int option" where
  \<comment> \<open>\<^verbatim>\<open>re.search(r'#(\d+)', s)\<close>, group 1 as an integer\<close>
  "search_hash s = search_first hash_at s"

definition cp_entry ::
  "(string \<Rightarrow> string option) \<Rightarrow> string \<Rightarrow> (int \<rightharpoonup> string) \<Rightarrow> error + (int \<rightharpoonup> string)" where
  \<comment> \<open>one of the two \<^verbatim>\<open>if ..._match:\<close> blocks: the index is the first \<^verbatim>\<open>#digits\<close>
      of the whole line, and \<^verbatim>\<open>.group\<close> on a failed search raises\<close>
  "cp_entry m l consts =
     (case m l of
        None \<Rightarrow> Inr consts
      | Some v \<Rightarrow> (case search_hash l of
                     None \<Rightarrow> Inl AttributeError
                   | Some i \<Rightarrow> Inr (consts(i \<mapsto> v))))"

fun cp_loop :: "bool \<Rightarrow> (int \<rightharpoonup> string) \<Rightarrow> string list \<Rightarrow> error + (int \<rightharpoonup> string)" where
  \<comment> \<open>the loop of \<^verbatim>\<open>parse_constant_pool\<close>, with the local \<^verbatim>\<open>in_constant_pool\<close>
      and the field \<^verbatim>\<open>string_constants\<close>\<close>
  "cp_loop inp consts [] = Inr consts"
| "cp_loop inp consts (l # ls) =
     (if contains ''Constant pool:'' l then cp_loop True consts ls
      else if inp then
        (if strip l = [] then cp_loop False consts ls
         else (case cp_entry (search_first string_match_at) l consts of
                 Inl e \<Rightarrow> Inl e
               | Inr c1 \<Rightarrow> (case cp_entry (search_first utf8_match_at) l c1 of
                              Inl e \<Rightarrow> Inl e
                            | Inr c2 \<Rightarrow> cp_loop True c2 ls)))
      else cp_loop False consts ls)"

definition parse_constant_pool :: "string \<Rightarrow> error + (int \<rightharpoonup> string)" where
  "parse_constant_pool bytecode = cp_loop False Map.empty (split_nl bytecode)"

section \<open>Values and their conversions\<close>

datatype pyvalue = VInt int | VStr string | VNone

fun py_str :: "pyvalue \<Rightarrow> string" where
  \<comment> \<open>\<^verbatim>\<open>str(v)\<close>, which is also what an f-string writes for \<^verbatim>\<open>{v}\<close>\<close>
  "py_str (VInt i) = str_int i"
| "py_str (VStr s) = s"
| "py_str VNone = ''None''"

fun dec_body :: "string \<Rightarrow> string option" where
  \<comment> \<open>the digits of a decimal literal, where single underscores may stand between digits\<close>
  "dec_body [] = None"
| "dec_body [c] = (if is_digit c then Some [c] else None)"
| "dec_body (c # d # cs) =
     (if is_digit c then
        (if d = CHR ''_'' then map_option (Cons c) (dec_body cs)
         else map_option (Cons c) (dec_body (d # cs)))
      else None)"

definition py_int :: "string \<Rightarrow> int option" where
  \<comment> \<open>\<^verbatim>\<open>int(s)\<close> in base ten; \<^const>\<open>None\<close> where it raises \<^verbatim>\<open>ValueError\<close>\<close>
  "py_int s =
     (case strip s of
        [] \<Rightarrow> None
      | c # cs \<Rightarrow>
          if c = CHR ''-'' then map_option (\<lambda>ds. - digits_to_int ds) (dec_body cs)
          else if c = CHR ''+'' then map_option digits_to_int (dec_body cs)
          else map_option digits_to_int (dec_body (c # cs)))"

fun digitpart_tail :: "string \<Rightarrow> string" where
  \<comment> \<open>behind the first digit of a digit part: what is left after the longest digit part\<close>
  "digitpart_tail [] = []"
| "digitpart_tail [c] = (if is_digit c then [] else [c])"
| "digitpart_tail (c # d # cs) =
     (if is_digit c then digitpart_tail (d # cs)
      else if c = CHR ''_'' \<and> is_digit d then digitpart_tail cs
      else c # d # cs)"

definition digitpart :: "string \<Rightarrow> string option" where
  "digitpart s = (case s of [] \<Rightarrow> None
     | c # cs \<Rightarrow> if is_digit c then Some (digitpart_tail cs) else None)"

definition drop_sign :: "string \<Rightarrow> string" where
  "drop_sign s = (case s of [] \<Rightarrow> []
     | c # cs \<Rightarrow> if c = CHR ''+'' \<or> c = CHR ''-'' then cs else c # cs)"

definition exponent_ok :: "string \<Rightarrow> bool" where
  \<comment> \<open>nothing, or \<^verbatim>\<open>e\<close>, an optional sign and a digit part, up to the end\<close>
  "exponent_ok s = (case s of [] \<Rightarrow> True
     | c # cs \<Rightarrow> (c = CHR ''e'' \<or> c = CHR ''E'') \<and> digitpart (drop_sign cs) = Some [])"

definition floatnumber_ok :: "string \<Rightarrow> bool" where
  \<comment> \<open>\<^verbatim>\<open>[digitpart] "." digitpart | digitpart ["."]\<close>, then the exponent\<close>
  "floatnumber_ok s =
     (case digitpart s of
        Some r \<Rightarrow> (case lit ''.'' r of
                     Some r1 \<Rightarrow> (case digitpart r1 of Some r2 \<Rightarrow> exponent_ok r2
                                                     | None \<Rightarrow> exponent_ok r1)
                   | None \<Rightarrow> exponent_ok r)
      | None \<Rightarrow> (case lit ''.'' s of
                   Some r1 \<Rightarrow> (case digitpart r1 of Some r2 \<Rightarrow> exponent_ok r2 | None \<Rightarrow> False)
                 | None \<Rightarrow> False))"

definition lower :: "char \<Rightarrow> char" where
  "lower c = (case map_of (zip ''ABCDEFGHIJKLMNOPQRSTUVWXYZ'' ''abcdefghijklmnopqrstuvwxyz'') c of
                Some d \<Rightarrow> d | None \<Rightarrow> c)"

definition py_float_ok :: "string \<Rightarrow> bool" where
  \<comment> \<open>whether \<^verbatim>\<open>float(s)\<close> returns; it raises \<^verbatim>\<open>ValueError\<close> otherwise\<close>
  "py_float_ok s =
     (let t = drop_sign (strip s) in
      map lower t \<in> set [''inf'', ''infinity'', ''nan''] \<or> floatnumber_ok t)"

fun py_add :: "pyvalue \<Rightarrow> pyvalue \<Rightarrow> error + pyvalue" where
  \<comment> \<open>\<^verbatim>\<open>a + b\<close>\<close>
  "py_add (VInt a) (VInt b) = Inr (VInt (a + b))"
| "py_add (VStr a) (VStr b) = Inr (VStr (a @ b))"
| "py_add _ _ = Inl TypeError"

fun py_sub :: "pyvalue \<Rightarrow> pyvalue \<Rightarrow> error + pyvalue" where
  \<comment> \<open>\<^verbatim>\<open>a - b\<close>\<close>
  "py_sub (VInt a) (VInt b) = Inr (VInt (a - b))"
| "py_sub _ _ = Inl TypeError"

fun py_mul :: "pyvalue \<Rightarrow> pyvalue \<Rightarrow> error + pyvalue" where
  \<comment> \<open>\<^verbatim>\<open>a * b\<close>; a text times a count repeats the text (the memory a long result
      needs is not modelled)\<close>
  "py_mul (VInt a) (VInt b) = Inr (VInt (a * b))"
| "py_mul (VStr s) (VInt n) = Inr (VStr (concat (replicate (nat n) s)))"
| "py_mul (VInt n) (VStr s) = Inr (VStr (concat (replicate (nat n) s)))"
| "py_mul _ _ = Inl TypeError"

fun py_floordiv :: "pyvalue \<Rightarrow> pyvalue \<Rightarrow> error + pyvalue" where
  \<comment> \<open>\<^verbatim>\<open>a // b\<close>\<close>
  "py_floordiv (VInt a) (VInt b) = (if b = 0 then Inl ZeroDivisionError else Inr (VInt (a div b)))"
| "py_floordiv _ _ = Inl TypeError"

type_synonym formatter = "string \<Rightarrow> pyvalue \<Rightarrow> error + string"

text \<open>
  On a text, the operator \<^verbatim>\<open>%\<close> of the host language is its formatting: from the text
  and the value on its right it returns a text or raises. A text without the character
  \<^verbatim>\<open>%\<close> has no conversion for the value and the operator raises \<^verbatim>\<open>TypeError\<close>. What it
  does on a text with that character is the business of the host language and is left
  open here: every definition that can reach the operator takes it as the parameter \<open>fmt\<close>,
  and every theorem holds for every \<open>fmt\<close>. The text it returns is, like every text of this
  development, one over the code points 0 to 255.
\<close>

fun py_mod :: "formatter \<Rightarrow> pyvalue \<Rightarrow> pyvalue \<Rightarrow> error + pyvalue" where
  \<comment> \<open>\<^verbatim>\<open>a % b\<close>\<close>
  "py_mod fmt (VInt a) (VInt b) =
     (if b = 0 then Inl ZeroDivisionError else Inr (VInt (a mod b)))"
| "py_mod fmt (VStr s) v =
     (if CHR ''%'' \<in> set s
      then (case fmt s v of Inl e \<Rightarrow> Inl e | Inr t \<Rightarrow> Inr (VStr t))
      else Inl TypeError)"
| "py_mod fmt _ _ = Inl TypeError"

section \<open>The debugger\<close>

datatype exec_state = Stopped | Running | Paused

text \<open>
  The fields of \<^verbatim>\<open>JavaVirtualDebugger\<close> that its operations read or write. The stack is
  a Python list, so its top is its last element; \<^verbatim>\<open>variables\<close> is a dictionary whose
  order of insertion shows in the state dump, hence an association list. The field
  \<^verbatim>\<open>output\<close> is named \<open>output_lines\<close> here, \<open>output\<close> being a keyword. The fields
  \<^verbatim>\<open>bytecode\<close>, \<^verbatim>\<open>pc\<close> and \<^verbatim>\<open>line_to_instruction\<close> are set by the constructor and used by
  no operation below.
\<close>

record debugger =
  instructions :: "instruction list"
  breakpoints :: "int list"
  output_lines :: "string list"
  variables :: "(string \<times> pyvalue) list"
  stack :: "pyvalue list"
  current_instruction_index :: nat
  execution_state :: exec_state
  last_breakpoint_hit :: "int option"
  program_output :: "string list"
  string_constants :: "int \<rightharpoonup> string"

type_synonym outcome = "(error \<times> debugger) + debugger"

text \<open>
  An operation either returns (\<^const>\<open>Inr\<close>, the debugger as the call leaves it) or raises
  (\<^const>\<open>Inl\<close>, the exception with the debugger as it is when the exception leaves the call).
\<close>

fun dict_set :: "string \<Rightarrow> pyvalue \<Rightarrow> (string \<times> pyvalue) list \<Rightarrow> (string \<times> pyvalue) list" where
  \<comment> \<open>\<^verbatim>\<open>d[k] = v\<close>: a present key keeps its place, a new key goes last\<close>
  "dict_set k v [] = [(k, v)]"
| "dict_set k v ((k', v') # kvs) =
     (if k = k' then (k, v) # kvs else (k', v') # dict_set k v kvs)"

definition emit :: "string \<Rightarrow> debugger \<Rightarrow> debugger" where
  \<comment> \<open>\<^verbatim>\<open>self.output.append(s)\<close>\<close>
  "emit s d = d\<lparr>output_lines := output_lines d @ [s]\<rparr>"

definition push :: "pyvalue \<Rightarrow> debugger \<Rightarrow> debugger" where
  \<comment> \<open>\<^verbatim>\<open>self.stack.append(v)\<close>\<close>
  "push v d = d\<lparr>stack := stack d @ [v]\<rparr>"

definition binop ::
  "(pyvalue \<Rightarrow> pyvalue \<Rightarrow> error + pyvalue) \<Rightarrow> (string \<Rightarrow> string \<Rightarrow> string \<Rightarrow> string) \<Rightarrow>
   debugger \<Rightarrow> outcome" where
  \<comment> \<open>the shape shared by the five arithmetic branches: with two operands, pop \<^verbatim>\<open>b\<close>,
      pop \<^verbatim>\<open>a\<close>, compute, push the result and log; with fewer, nothing. When the operator
      raises, both operands are already popped.\<close>
  "binop f msg d =
     (if 2 \<le> length (stack d) then
        (let b = last (stack d); a = last (butlast (stack d));
             d1 = d\<lparr>stack := butlast (butlast (stack d))\<rparr> in
         case f a b of
           Inl e \<Rightarrow> Inl (e, d1)
         | Inr r \<Rightarrow> Inr (emit (msg (py_str a) (py_str b) (py_str r)) (push r d1)))
      else Inr d)"

definition istore :: "string \<Rightarrow> debugger \<Rightarrow> outcome" where
  \<comment> \<open>the two store branches, for the variable name \<^verbatim>\<open>a\<close> or \<^verbatim>\<open>b\<close>\<close>
  "istore x d =
     (if stack d \<noteq> [] then
        (let v = last (stack d) in
         Inr (emit (''Set variable '' @ [CHR 0x27] @ x @ [CHR 0x27] @ '' = '' @ py_str v)
                (d\<lparr>stack := butlast (stack d), variables := dict_set x v (variables d)\<rparr>)))
      else Inr d)"

definition simulate_instruction :: "formatter \<Rightarrow> instruction \<Rightarrow> debugger \<Rightarrow> outcome" where
  "simulate_instruction fmt instr d =
     (let opc = opcode instr; opnds = operands instr in
      if opc = ''ldc'' then
        (case search_hash opnds of
           None \<Rightarrow> Inl (AttributeError, d)
         | Some const_index \<Rightarrow>
             (case string_constants d const_index of
                Some s \<Rightarrow> Inr (emit (''Loaded string constant: '' @ s) (push (VStr s) d))
              | None \<Rightarrow>
                  if py_float_ok (strip opnds) then Inl (NotModelled, d)
                  else Inr (push VNone d)))
      else if opc = ''getstatic'' \<and> contains ''java/lang/System.out'' opnds then Inr d
      else if opc = ''invokevirtual'' then
        (if contains ''println'' opnds then
           (if 1 \<le> length (stack d) then
              (let output_str = py_str (last (stack d)) in
               Inr ((emit (''Program output: '' @ output_str) (d\<lparr>stack := butlast (stack d)\<rparr>))
                      \<lparr>program_output := program_output d @ [output_str @ [CHR 0x0A]]\<rparr>))
            else Inr d)
         else if contains ''append'' opnds then
           (if 2 \<le> length (stack d) then
              (let v = last (stack d); builder = last (butlast (stack d)) in
               Inr (emit (''Appended: '' @ py_str v @ '' to '' @ py_str builder)
                      (push (VStr (py_str builder @ py_str v))
                         (d\<lparr>stack := butlast (butlast (stack d))\<rparr>))))
            else Inr d)
         else if contains ''toString'' opnds then
           (if 1 \<le> length (stack d) then
              (let result = py_str (last (stack d)) in
               Inr (emit (''Converted to string: '' @ result)
                      (push (VStr result) (d\<lparr>stack := butlast (stack d)\<rparr>))))
            else Inr d)
         else Inr d)
      else if opc = ''new'' \<and> contains ''java/lang/StringBuilder'' opnds then
        Inr (emit ''Created new StringBuilder'' (push (VStr []) d))
      else if opc = ''istore_1'' then istore ''a'' d
      else if opc = ''istore_2'' then istore ''b'' d
      else if opc = ''iconst_5'' then
        Inr (emit ''Pushed constant 5 to stack'' (push (VInt 5) d))
      else if opc = ''bipush'' then
        (case py_int (strip opnds) of
           None \<Rightarrow> Inl (ValueError, d)
         | Some v \<Rightarrow> Inr (emit (''Pushed constant '' @ str_int v @ '' to stack'') (push (VInt v) d)))
      else if opc = ''iadd'' then
        binop py_add (\<lambda>a b r. ''Added '' @ a @ '' + '' @ b @ '' = '' @ r) d
      else if opc = ''isub'' then
        binop py_sub (\<lambda>a b r. ''Subtracted '' @ a @ '' - '' @ b @ '' = '' @ r) d
      else if opc = ''imul'' then
        binop py_mul (\<lambda>a b r. ''Multiplied '' @ a @ '' * '' @ b @ '' = '' @ r) d
      else if opc = ''idiv'' then
        binop py_floordiv (\<lambda>a b r. ''Divided '' @ a @ '' / '' @ b @ '' = '' @ r) d
      else if opc = ''irem'' then
        binop (py_mod fmt) (\<lambda>a b r. ''Remainder '' @ a @ '' % '' @ b @ '' = '' @ r) d
      else Inr d)"

definition show_state :: "debugger \<Rightarrow> debugger" where
  \<comment> \<open>\<^verbatim>\<open>_show_state\<close>: five lines appended to the trace\<close>
  "show_state d =
     d\<lparr>output_lines := output_lines d @
        [CHR 0x0A # ''Current State:'',
         ''PC: '' @ str_int (int (current_instruction_index d)),
         ''Stack: ['' @ join '', '' (map py_str (stack d)) @ '']'',
         ''Variables: '' @ join '', '' (map (\<lambda>(k, v). k @ ''='' @ py_str v) (variables d)),
         []]\<rparr>"

definition reset :: "debugger \<Rightarrow> debugger" where
  "reset d =
     d\<lparr>output_lines := [''Program reset. Ready to run.''],
       variables := [(''a'', VInt 5), (''b'', VInt 10)],
       stack := [],
       current_instruction_index := 0,
       execution_state := Stopped,
       program_output := []\<rparr>"

definition trace :: "debugger \<Rightarrow> string" where
  \<comment> \<open>what \<^verbatim>\<open>reset\<close>, \<^verbatim>\<open>step\<close> and \<^verbatim>\<open>run_to_next_breakpoint\<close> return:
      \<^verbatim>\<open>"\n".join(self.output)\<close>\<close>
  "trace d = join [CHR 0x0A] (output_lines d)"

definition step :: "formatter \<Rightarrow> debugger \<Rightarrow> outcome" where
  "step fmt d0 =
     (let d = d0\<lparr>execution_state := Paused\<rparr> in
      if length (instructions d) \<le> current_instruction_index d then
        Inr ((emit ''End of program reached.'' d)\<lparr>execution_state := Stopped\<rparr>)
      else
        (let instr = instructions d ! current_instruction_index d;
             d1 = d\<lparr>output_lines := [''Executing: '' @ str_int (offset instr) @ '': '' @ opcode instr
                                 @ '' '' @ operands instr]\<rparr>;
             d2 = (case line instr of None \<Rightarrow> d1
                   | Some n \<Rightarrow> emit (''Source line: '' @ str_int n) d1) in
         case simulate_instruction fmt instr d2 of
           Inl ex \<Rightarrow> Inl ex
         | Inr d3 \<Rightarrow>
             Inr (show_state (d3\<lparr>current_instruction_index := current_instruction_index d3 + 1\<rparr>))))"

function run_loop :: "formatter \<Rightarrow> bool \<Rightarrow> debugger \<Rightarrow> outcome" where
  \<comment> \<open>the \<^verbatim>\<open>while\<close> of \<^verbatim>\<open>run_to_next_breakpoint\<close> with its local \<^verbatim>\<open>skip_current\<close>, up
      to and including the statements behind the loop\<close>
  "run_loop fmt skip_current d =
     (if current_instruction_index d < length (instructions d) then
        (let current_instr = instructions d ! current_instruction_index d;
             current_offset = offset current_instr in
         if current_offset \<in> set (breakpoints d) \<and>
            (\<not> skip_current \<or> Some current_offset \<noteq> last_breakpoint_hit d)
         then Inr (show_state (d\<lparr>execution_state := Paused,
                                 last_breakpoint_hit := Some current_offset\<rparr>))
         else
           (case simulate_instruction fmt current_instr d of
              Inl ex \<Rightarrow> Inl ex
            | Inr d' \<Rightarrow>
                run_loop fmt False
                  (d'\<lparr>current_instruction_index := current_instruction_index d' + 1\<rparr>)))
      else Inr (show_state (d\<lparr>execution_state := Stopped\<rparr>)))"
  by pat_completeness auto
termination
proof (relation "measure (\<lambda>(f, s, d). length (instructions d) - current_instruction_index d)",
    goal_cases)
  case 1
  show ?case by simp
next
  case (2 fmt skip d instr off d')
  have "instructions d' = instructions d \<and>
        current_instruction_index d' = current_instruction_index d"
    using 2
    by (auto simp: simulate_instruction_def binop_def istore_def emit_def push_def Let_def
             split: if_splits option.splits sum.splits)
  then show ?case using 2 by simp
qed

declare run_loop.simps [simp del]

definition run_to_next_breakpoint :: "formatter \<Rightarrow> debugger \<Rightarrow> outcome" where
  "run_to_next_breakpoint fmt d0 =
     (let d = d0\<lparr>execution_state := Running, output_lines := []\<rparr>;
          skip_current =
            (current_instruction_index d < length (instructions d) \<and>
             (let current_offset = offset (instructions d ! current_instruction_index d) in
              current_offset \<in> set (breakpoints d) \<and> Some current_offset = last_breakpoint_hit d))
      in run_loop fmt skip_current d)"

definition fresh :: "instruction list \<Rightarrow> (int \<rightharpoonup> string) \<Rightarrow> debugger" where
  \<comment> \<open>the fields as the constructor \<^verbatim>\<open>__init__\<close> sets them\<close>
  "fresh instrs consts =
     \<lparr>instructions = instrs, breakpoints = [], output_lines = [], variables = [], stack = [],
      current_instruction_index = 0, execution_state = Stopped, last_breakpoint_hit = None,
      program_output = [], string_constants = consts\<rparr>"

definition new_debugger :: "string \<Rightarrow> error + debugger" where
  \<comment> \<open>\<^verbatim>\<open>JavaVirtualDebugger(bytecode)\<close>\<close>
  "new_debugger bytecode =
     (case parse_constant_pool bytecode of
        Inl e \<Rightarrow> Inl e
      | Inr consts \<Rightarrow> Inr (fresh (parse_bytecode bytecode) consts))"

fun steps :: "formatter \<Rightarrow> nat \<Rightarrow> debugger \<Rightarrow> outcome" where
  \<comment> \<open>\<open>n\<close> calls of \<^const>\<open>step\<close> in a row; an exception ends the sequence\<close>
  "steps fmt 0 d = Inr d"
| "steps fmt (Suc n) d = (case step fmt d of Inl ex \<Rightarrow> Inl ex | Inr d' \<Rightarrow> steps fmt n d')"

section \<open>Reference notions for the statements\<close>

text \<open>
  The definitions of this section are not taken from the program. They say, in the words
  of the description of the program, what its loops are expected to compute, and the
  theorems compare the program with them.
\<close>

definition last_marker :: "string list \<Rightarrow> int option" where
  \<comment> \<open>the source line of the last of the given lines that holds a line marker\<close>
  "last_marker ls =
     (case rev (filter (\<lambda>l. search_line l \<noteq> None) ls) of
        [] \<Rightarrow> None
      | m # _ \<Rightarrow> search_line m)"

definition tagged_instructions :: "string list \<Rightarrow> instruction list" where
  \<comment> \<open>one record for every line that matches the instruction pattern, in the order of the
      lines, tagged with the last marker of the lines up to and including its own\<close>
  "tagged_instructions ls =
     concat (map (\<lambda>i. case instr_match (ls ! i) of
                         None \<Rightarrow> []
                       | Some (ds, op, rest) \<Rightarrow>
                           [\<lparr>offset = digits_to_int ds, opcode = op, operands = strip rest,
                             line = last_marker (take (Suc i) ls)\<rparr>])
                 [0..<length ls])"

definition line_entries :: "string \<Rightarrow> (int \<times> string) list" where
  \<comment> \<open>the entries one line of the region gives: a String entry, then a Utf8 entry\<close>
  "line_entries l =
     (case search_hash l of
        None \<Rightarrow> []
      | Some i \<Rightarrow>
          (case search_first string_match_at l of None \<Rightarrow> [] | Some v \<Rightarrow> [(i, v)]) @
          (case search_first utf8_match_at l of None \<Rightarrow> [] | Some v \<Rightarrow> [(i, v)]))"

fun region_entries :: "bool \<Rightarrow> string list \<Rightarrow> (int \<times> string) list" where
  \<comment> \<open>the entries of the lines inside a region, in the order of the text; a region opens
      at a line holding the heading and closes at the next blank line\<close>
  "region_entries inp [] = []"
| "region_entries inp (l # ls) =
     (if contains ''Constant pool:'' l then region_entries True ls
      else if inp then
        (if strip l = [] then region_entries False ls
         else line_entries l @ region_entries True ls)
      else region_entries False ls)"

definition next_stop :: "int list \<Rightarrow> instruction list \<Rightarrow> nat \<Rightarrow> nat" where
  \<comment> \<open>the index of the first instruction at or behind index \<open>i\<close> whose offset is a
      breakpoint; the length of the stream when there is none\<close>
  "next_stop bps instrs i =
     i + length (takeWhile (\<lambda>ins. offset ins \<notin> set bps) (drop i instrs))"

fun exec_all :: "formatter \<Rightarrow> instruction list \<Rightarrow> debugger \<Rightarrow> outcome" where
  \<comment> \<open>simulate the given instructions one after the other, advancing the index behind
      each; an exception ends the run\<close>
  "exec_all fmt [] d = Inr d"
| "exec_all fmt (x # xs) d =
     (case simulate_instruction fmt x d of
        Inl ex \<Rightarrow> Inl ex
      | Inr d' \<Rightarrow>
          exec_all fmt xs (d'\<lparr>current_instruction_index := current_instruction_index d' + 1\<rparr>))"

definition nl :: string where
  "nl = [CHR 0x0A]"

definition add_listing :: string where
  \<comment> \<open>the three instruction lines of the addition example\<close>
  "add_listing = ''0: iconst_5'' @ nl @ ''1: bipush 10'' @ nl @ ''2: iadd''"

definition pool_listing :: string where
  \<comment> \<open>a region with one String entry, and an instruction that loads it\<close>
  "pool_listing = ''Constant pool:'' @ nl @ ''#7 = String #3 // '' @ [CHR 0x22] @ ''Hi''
     @ [CHR 0x22] @ nl @ nl @ ''0: ldc #7''"

definition sweep_listing :: string where
  \<comment> \<open>three instructions under one line marker\<close>
  "sweep_listing = ''line 3: 0'' @ nl @ ''10: nop'' @ nl @ ''11: bipush 4'' @ nl @ ''12: nop''"

definition sweep_debugger :: debugger where
  \<comment> \<open>the session on \<^const>\<open>sweep_listing\<close>, reset, with breakpoints at offsets 10 and 12 and
      the breakpoint at 10 recorded as the last one hit\<close>
  "sweep_debugger =
     (reset (fresh (parse_bytecode sweep_listing) Map.empty))
       \<lparr>breakpoints := [10, 12], last_breakpoint_hit := Some 10, execution_state := Paused\<rparr>"

definition instr_of :: "string \<Rightarrow> string \<Rightarrow> instruction" where
  \<comment> \<open>an instruction record with the given opcode and operand text, at offset 0\<close>
  "instr_of opc opnds = \<lparr>offset = 0, opcode = opc, operands = opnds, line = None\<rparr>"

definition strictly_tagged_instructions :: "string list \<Rightarrow> instruction list" where
  \<comment> \<open>as \<^const>\<open>tagged_instructions\<close>, but tagged with the last marker of the lines strictly
      before the instruction's own\<close>
  "strictly_tagged_instructions ls =
     concat (map (\<lambda>i. case instr_match (ls ! i) of
                         None \<Rightarrow> []
                       | Some (ds, op, rest) \<Rightarrow>
                           [\<lparr>offset = digits_to_int ds, opcode = op, operands = strip rest,
                             line = last_marker (take i ls)\<rparr>])
                 [0..<length ls])"

definition marker_listing :: string where
  \<comment> \<open>one line that matches the instruction pattern and holds a line marker\<close>
  "marker_listing = ''5: nop line 9:''"

definition twice_listing :: string where
  \<comment> \<open>a region with two entries for the index 7\<close>
  "twice_listing = ''Constant pool:'' @ nl @ ''#7 = Utf8 first'' @ nl @ ''#7 = Utf8 second''"

definition again_debugger :: debugger where
  \<comment> \<open>a session whose first and third instruction share the offset 10, paused on the first
      with the breakpoint at 10 recorded as the last one hit\<close>
  "again_debugger =
     (reset (fresh (parse_bytecode (''10: nop'' @ nl @ ''11: nop'' @ nl @ ''10: nop'')) Map.empty))
       \<lparr>breakpoints := [10], last_breakpoint_hit := Some 10, execution_state := Paused\<rparr>"

definition zero_debugger :: debugger where
  \<comment> \<open>a session that divides 7 by 0 at offset 2, reset, with breakpoints at offsets 2 and 3\<close>
  "zero_debugger =
     (reset (fresh (parse_bytecode (''0: bipush 7'' @ nl @ ''1: bipush 0'' @ nl @ ''2: idiv''
                                      @ nl @ ''3: nop'')) Map.empty))
       \<lparr>breakpoints := [2, 3]\<rparr>"

definition none_listing :: string where
  \<comment> \<open>a load of a constant that is in no pool, a push of 0, and a division\<close>
  "none_listing = ''0: ldc #9'' @ nl @ ''1: bipush 0'' @ nl @ ''2: idiv''"

definition format_listing :: string where
  \<comment> \<open>a pool whose entry 2 is a text with a conversion, and a remainder taken of that
      text and 5\<close>
  "format_listing = ''Constant pool:'' @ nl @ ''#2 = Utf8 %d'' @ nl @ nl @ ''0: ldc #2'' @ nl
     @ ''1: bipush 5'' @ nl @ ''2: irem'' @ nl @ ''3: nop''"

definition format_debugger :: debugger where
  \<comment> \<open>the session on \<^const>\<open>format_listing\<close>, reset, with breakpoints at offsets 0 and 3 and
      the breakpoint at 0 recorded as the last one hit\<close>
  "format_debugger =
     (reset (fresh (parse_bytecode format_listing) (Map.empty(2 \<mapsto> ''%d''))))
       \<lparr>breakpoints := [0, 3], last_breakpoint_hit := Some 0, execution_state := Paused\<rparr>"

section \<open>Resetting\<close>

text \<open>
  Claim C4, as the program has it. \<^verbatim>\<open>reset()\<close> has no statement that can raise, so it is a
  total function on debuggers. Called in any state it leaves an empty stack, a trace that
  holds exactly the one line \<^verbatim>\<open>Program reset. Ready to run.\<close>, an empty program output
  log, the program counter 0, the variables \<open>a = 5\<close> and \<open>b = 10\<close> and the execution state
  \<open>stopped\<close>; the instruction stream, the breakpoints and the constant pool stay as they
  are, and a second reset changes nothing.
\<close>

theorem reset_establishes:
  "stack (reset d) = [] \<and>
   output_lines (reset d) = [''Program reset. Ready to run.''] \<and>
   program_output (reset d) = [] \<and>
   current_instruction_index (reset d) = 0 \<and>
   variables (reset d) = [(''a'', VInt 5), (''b'', VInt 10)] \<and>
   execution_state (reset d) = Stopped \<and>
   instructions (reset d) = instructions d \<and>
   breakpoints (reset d) = breakpoints d \<and>
   string_constants (reset d) = string_constants d \<and>
   reset (reset d) = reset d"
  by (simp add: reset_def)

theorem reset_establishes_witness:
  "stack (reset sweep_debugger) = [] \<and>
   output_lines (reset sweep_debugger) = [''Program reset. Ready to run.''] \<and>
   execution_state (reset sweep_debugger) = Stopped \<and>
   breakpoints (reset sweep_debugger) = [10, 12]"
  using reset_establishes [of sweep_debugger] by (simp add: sweep_debugger_def)

text \<open>
  The claim as it was stated asks for an empty trace and a cleared marker of the last
  breakpoint hit. On a paused session whose marker is offset 10 the reset leaves one line
  in the trace (and does not touch the marker), so the conjunction it asks for fails.
\<close>

theorem reset_counterexample:
  "\<not> (stack (reset sweep_debugger) = [] \<and>
      output_lines (reset sweep_debugger) = [] \<and>
      program_output (reset sweep_debugger) = [] \<and>
      current_instruction_index (reset sweep_debugger) = 0 \<and>
      variables (reset sweep_debugger) = [(''a'', VInt 5), (''b'', VInt 10)] \<and>
      last_breakpoint_hit (reset sweep_debugger) = None \<and>
      execution_state (reset sweep_debugger) = Stopped)"
  by (simp add: reset_def)

section \<open>Integer division and remainder\<close>

text \<open>
  Claim C7. With two integers on top of the stack, \<open>a\<close> below \<open>b\<close>, and \<open>b\<close> not zero, the
  integer-divide opcode replaces both by the quotient rounded toward negative infinity, and
  the remainder opcode replaces both by the remainder that goes with that quotient
  (\<open>a = b * q + r\<close>). Integers are unbounded, so nothing wraps around. For \<open>a = -7\<close> and
  \<open>b = 2\<close> the quotient is \<open>-4\<close> (see the witness).
\<close>

theorem idiv_irem_floor:
  assumes "b \<noteq> 0" and "stack d = rest @ [VInt a, VInt b]"
  shows "simulate_instruction fmt \<lparr>offset = off, opcode = ''idiv'', operands = ops, line = src\<rparr> d =
           Inr (emit (''Divided '' @ str_int a @ '' / '' @ str_int b @ '' = '' @ str_int (a div b))
                  (d\<lparr>stack := rest @ [VInt (a div b)]\<rparr>)) \<and>
         simulate_instruction fmt \<lparr>offset = off, opcode = ''irem'', operands = ops, line = src\<rparr> d =
           Inr (emit (''Remainder '' @ str_int a @ '' % '' @ str_int b @ '' = '' @ str_int (a mod b))
                  (d\<lparr>stack := rest @ [VInt (a mod b)]\<rparr>)) \<and>
         a div b = \<lfloor>real_of_int a / real_of_int b\<rfloor> \<and>
         a = b * (a div b) + a mod b"
  using assms
  by (simp add: simulate_instruction_def binop_def emit_def push_def butlast_append
        floor_divide_of_int_eq)

theorem idiv_irem_floor_witness:
  "\<forall>fmt. (2::int) \<noteq> 0 \<and>
     simulate_instruction fmt (instr_of ''idiv'' [])
         ((fresh [] Map.empty)\<lparr>stack := [VInt (- 7), VInt 2]\<rparr>) =
       Inr ((fresh [] Map.empty)\<lparr>stack := [VInt (- 4)],
              output_lines := [''Divided -7 / 2 = -4'']\<rparr>) \<and>
     simulate_instruction fmt (instr_of ''irem'' [])
         ((fresh [] Map.empty)\<lparr>stack := [VInt (- 7), VInt 2]\<rparr>) =
       Inr ((fresh [] Map.empty)\<lparr>stack := [VInt 1],
              output_lines := [''Remainder -7 % 2 = 1'']\<rparr>)"
proof (intro allI)
  fix fmt :: formatter
  have s: "str_int (- 7) = ''-7''" "str_int 2 = ''2''" "str_int (- 4) = ''-4''" "str_int 1 = ''1''"
    by code_simp+
  have h: "stack ((fresh [] Map.empty)\<lparr>stack := [VInt (- 7), VInt 2]\<rparr>) = [] @ [VInt (- 7), VInt 2]"
    by simp
  show "(2::int) \<noteq> 0 \<and>
     simulate_instruction fmt (instr_of ''idiv'' [])
         ((fresh [] Map.empty)\<lparr>stack := [VInt (- 7), VInt 2]\<rparr>) =
       Inr ((fresh [] Map.empty)\<lparr>stack := [VInt (- 4)],
              output_lines := [''Divided -7 / 2 = -4'']\<rparr>) \<and>
     simulate_instruction fmt (instr_of ''irem'' [])
         ((fresh [] Map.empty)\<lparr>stack := [VInt (- 7), VInt 2]\<rparr>) =
       Inr ((fresh [] Map.empty)\<lparr>stack := [VInt 1],
              output_lines := [''Remainder -7 % 2 = 1'']\<rparr>)"
    using idiv_irem_floor [OF _ h, where fmt = fmt and off = 0 and ops = "[]" and src = None] s
    by (simp add: instr_of_def emit_def fresh_def)
qed

section \<open>Division by zero\<close>

text \<open>
  Claim C9, as the program has it. With two integers on top of the stack and the divisor
  \<open>b = 0\<close>, the integer-divide and the remainder opcode raise \<^verbatim>\<open>ZeroDivisionError\<close> out of
  the simulate call: the call does not return, both operands are already popped and nothing
  is pushed in their place. With two integers and \<open>b \<noteq> 0\<close> the call returns.
\<close>

theorem division_by_zero_raises:
  assumes "stack d = rest @ [VInt a, VInt b]" and "opc = ''idiv'' \<or> opc = ''irem''"
  shows "(b = 0 \<longrightarrow>
            simulate_instruction fmt \<lparr>offset = off, opcode = opc, operands = ops, line = src\<rparr> d =
              Inl (ZeroDivisionError, d\<lparr>stack := rest\<rparr>)) \<and>
         (b \<noteq> 0 \<longrightarrow>
            (\<exists>d'. simulate_instruction fmt \<lparr>offset = off, opcode = opc, operands = ops, line = src\<rparr> d =
                    Inr d'))"
proof -
  from assms(2) show ?thesis
  proof
    assume "opc = ''idiv''"
    then show ?thesis
      using assms(1) by (simp add: simulate_instruction_def binop_def butlast_append)
  next
    assume "opc = ''irem''"
    then show ?thesis
      using assms(1) by (simp add: simulate_instruction_def binop_def butlast_append)
  qed
qed

theorem division_by_zero_raises_witness:
  "\<forall>fmt.
     simulate_instruction fmt (instr_of ''idiv'' [])
         ((fresh [] Map.empty)\<lparr>stack := [VInt 3, VInt 7, VInt 0]\<rparr>) =
       Inl (ZeroDivisionError, (fresh [] Map.empty)\<lparr>stack := [VInt 3]\<rparr>) \<and>
     simulate_instruction fmt (instr_of ''irem'' [])
         ((fresh [] Map.empty)\<lparr>stack := [VInt 3, VInt 7, VInt 0]\<rparr>) =
       Inl (ZeroDivisionError, (fresh [] Map.empty)\<lparr>stack := [VInt 3]\<rparr>) \<and>
     (\<exists>d'. simulate_instruction fmt (instr_of ''idiv'' [])
         ((fresh [] Map.empty)\<lparr>stack := [VInt 3, VInt 7, VInt 2]\<rparr>) = Inr d')"
proof (intro allI)
  fix fmt :: formatter
  have h0: "stack ((fresh [] Map.empty)\<lparr>stack := [VInt 3, VInt 7, VInt 0]\<rparr>) = [VInt 3] @ [VInt 7, VInt 0]"
    and h2: "stack ((fresh [] Map.empty)\<lparr>stack := [VInt 3, VInt 7, VInt 2]\<rparr>) = [VInt 3] @ [VInt 7, VInt 2]"
    by simp_all
  show "simulate_instruction fmt (instr_of ''idiv'' [])
         ((fresh [] Map.empty)\<lparr>stack := [VInt 3, VInt 7, VInt 0]\<rparr>) =
       Inl (ZeroDivisionError, (fresh [] Map.empty)\<lparr>stack := [VInt 3]\<rparr>) \<and>
     simulate_instruction fmt (instr_of ''irem'' [])
         ((fresh [] Map.empty)\<lparr>stack := [VInt 3, VInt 7, VInt 0]\<rparr>) =
       Inl (ZeroDivisionError, (fresh [] Map.empty)\<lparr>stack := [VInt 3]\<rparr>) \<and>
     (\<exists>d'. simulate_instruction fmt (instr_of ''idiv'' [])
         ((fresh [] Map.empty)\<lparr>stack := [VInt 3, VInt 7, VInt 2]\<rparr>) = Inr d')"
    using division_by_zero_raises [OF h0, where opc = "''idiv''" and fmt = fmt and off = 0
        and ops = "[]" and src = None]
      division_by_zero_raises [OF h0, where opc = "''irem''" and fmt = fmt and off = 0
        and ops = "[]" and src = None]
      division_by_zero_raises [OF h2, where opc = "''idiv''" and fmt = fmt and off = 0
        and ops = "[]" and src = None]
    by (simp add: instr_of_def)
qed

text \<open>
  The claim as it was stated asks for an arithmetic error whenever the divisor is 0 and the
  stack holds two operands. On the three lines of \<^const>\<open>none_listing\<close> the load pushes null
  (index 9 is in no pool) and the byte push pushes 0; the division then finds the divisor 0
  under a dividend that is no number and raises \<^verbatim>\<open>TypeError\<close>, whatever the formatting of
  the host language does.
\<close>

theorem division_by_zero_counterexample:
  "\<forall>fmt. (case new_debugger none_listing of
      Inl e \<Rightarrow> False
    | Inr d \<Rightarrow>
        map opcode (instructions d) = [''ldc'', ''bipush'', ''idiv''] \<and>
        (case steps fmt 2 (reset d) of
           Inl ex \<Rightarrow> False
         | Inr d2 \<Rightarrow>
             stack d2 = [VNone, VInt 0] \<and>
             (case simulate_instruction fmt (instructions d2 ! 2) d2 of
                Inl (e, d3) \<Rightarrow> e = TypeError \<and> stack d3 = []
              | Inr d3 \<Rightarrow> False)))"
proof (intro allI)
  fix fmt :: formatter
  show "case new_debugger none_listing of
      Inl e \<Rightarrow> False
    | Inr d \<Rightarrow>
        map opcode (instructions d) = [''ldc'', ''bipush'', ''idiv''] \<and>
        (case steps fmt 2 (reset d) of
           Inl ex \<Rightarrow> False
         | Inr d2 \<Rightarrow>
             stack d2 = [VNone, VInt 0] \<and>
             (case simulate_instruction fmt (instructions d2 ! 2) d2 of
                Inl (e, d3) \<Rightarrow> e = TypeError \<and> stack d3 = []
              | Inr d3 \<Rightarrow> False))"
    by code_simp
qed

section \<open>A byte push with a malformed operand\<close>

text \<open>
  Claim C10. When the operand text of a \<^verbatim>\<open>bipush\<close> record is not a decimal integer
  (\<^verbatim>\<open>int()\<close> rejects it; the empty text is one such), the simulate call raises
  \<^verbatim>\<open>ValueError\<close> with the debugger untouched: it neither skips the instruction nor pushes
  a default. An opcode outside the ones the interpreter knows is a no-operation, whatever
  its operand text.
\<close>

theorem bipush_malformed_raises:
  assumes "py_int (strip ops) = None"
  shows "simulate_instruction fmt \<lparr>offset = off, opcode = ''bipush'', operands = ops, line = src\<rparr> d =
           Inl (ValueError, d) \<and>
         (opc \<notin> set [''ldc'', ''getstatic'', ''invokevirtual'', ''new'', ''istore_1'', ''istore_2'',
                      ''iconst_5'', ''bipush'', ''iadd'', ''isub'', ''imul'', ''idiv'', ''irem''] \<longrightarrow>
          simulate_instruction fmt \<lparr>offset = off, opcode = opc, operands = ops, line = src\<rparr> d = Inr d)"
  using assms by (simp add: simulate_instruction_def)

theorem bipush_malformed_raises_witness:
  "\<forall>fmt. py_int (strip []) = None \<and> py_int (strip ''1x'') = None \<and>
     simulate_instruction fmt (instr_of ''bipush'' []) (fresh [] Map.empty) =
       Inl (ValueError, fresh [] Map.empty) \<and>
     simulate_instruction fmt (instr_of ''bipush'' ''1x'') (fresh [] Map.empty) =
       Inl (ValueError, fresh [] Map.empty) \<and>
     simulate_instruction fmt (instr_of ''nop'' ''1x'') (fresh [] Map.empty) =
       Inr (fresh [] Map.empty) \<and>
     parse_bytecode ''0: bipush'' = [instr_of ''bipush'' []] \<and>
     parse_bytecode ''0: bipush 1x'' = [instr_of ''bipush'' ''1x'']"
proof (intro allI)
  fix fmt :: formatter
  have e: "py_int (strip []) = None" and x: "py_int (strip ''1x'') = None"
    by (simp_all add: py_int_def strip_def is_space_def is_digit_def)
  have p: "parse_bytecode ''0: bipush'' = [instr_of ''bipush'' []]"
    "parse_bytecode ''0: bipush 1x'' = [instr_of ''bipush'' ''1x'']"
    by code_simp+
  show "py_int (strip []) = None \<and> py_int (strip ''1x'') = None \<and>
     simulate_instruction fmt (instr_of ''bipush'' []) (fresh [] Map.empty) =
       Inl (ValueError, fresh [] Map.empty) \<and>
     simulate_instruction fmt (instr_of ''bipush'' ''1x'') (fresh [] Map.empty) =
       Inl (ValueError, fresh [] Map.empty) \<and>
     simulate_instruction fmt (instr_of ''nop'' ''1x'') (fresh [] Map.empty) =
       Inr (fresh [] Map.empty) \<and>
     parse_bytecode ''0: bipush'' = [instr_of ''bipush'' []] \<and>
     parse_bytecode ''0: bipush 1x'' = [instr_of ''bipush'' ''1x'']"
    using bipush_malformed_raises [OF e, where fmt = fmt and off = 0 and src = None
        and d = "fresh [] Map.empty" and opc = "''nop''"]
      bipush_malformed_raises [OF x, where fmt = fmt and off = 0 and src = None
        and d = "fresh [] Map.empty" and opc = "''nop''"] e x p
    by (simp add: instr_of_def)
qed

section \<open>Loading a constant\<close>

text \<open>
  The text \<^verbatim>\<open>float()\<close> accepts never holds the character \<^verbatim>\<open>#\<close>, and the load-constant
  branch calls \<^verbatim>\<open>float()\<close> only on an operand text in which \<^verbatim>\<open>#digits\<close> was found.
\<close>

lemma hash_not_space: "\<not> is_space (CHR ''#'')"
  by (simp add: is_space_def)

lemma hash_not_digit: "\<not> is_digit (CHR ''#'')"
  by (simp add: is_digit_def)

lemma in_dropWhile: "x \<in> set s \<Longrightarrow> \<not> P x \<Longrightarrow> x \<in> set (dropWhile P s)"
  by (induction s) auto

lemma hash_in_strip: "CHR ''#'' \<in> set s \<Longrightarrow> CHR ''#'' \<in> set (strip s)"
  by (simp add: strip_def in_dropWhile hash_not_space)

lemma hash_in_drop_sign: "CHR ''#'' \<in> set s \<Longrightarrow> CHR ''#'' \<in> set (drop_sign s)"
  by (cases s) (auto simp: drop_sign_def)

lemma hash_in_digitpart_tail:
  "CHR ''#'' \<in> set s \<Longrightarrow> CHR ''#'' \<in> set (digitpart_tail s)"
  by (induction s rule: digitpart_tail.induct) (auto simp: hash_not_digit)

lemma hash_in_digitpart:
  "digitpart s = Some r \<Longrightarrow> CHR ''#'' \<in> set s \<Longrightarrow> CHR ''#'' \<in> set r"
  by (cases s) (auto simp: digitpart_def hash_not_digit hash_in_digitpart_tail split: if_splits)

lemma hash_in_lit_dot:
  "lit ''.'' s = Some r \<Longrightarrow> CHR ''#'' \<in> set s \<Longrightarrow> CHR ''#'' \<in> set r"
  by (cases s) (auto simp: lit_def split: if_splits)


lemma exponent_no_hash: "exponent_ok s \<Longrightarrow> CHR ''#'' \<notin> set s"
proof (cases s)
  case Nil
  then show ?thesis by simp
next
  case (Cons c cs)
  assume "exponent_ok s"
  with Cons have c: "c = CHR ''e'' \<or> c = CHR ''E''" and d: "digitpart (drop_sign cs) = Some []"
    by (simp_all add: exponent_ok_def)
  have "CHR ''#'' \<notin> set cs"
    using hash_in_digitpart [OF d] hash_in_drop_sign [of cs] by auto
  with c Cons show ?thesis by auto
qed

lemma floatnumber_no_hash:
  assumes "floatnumber_ok s"
  shows "CHR ''#'' \<notin> set s"
proof
  assume h: "CHR ''#'' \<in> set s"
  show False
  proof (cases "digitpart s")
    case (Some r)
    note r = hash_in_digitpart [OF Some h]
    show ?thesis
    proof (cases "lit ''.'' r")
      case None
      with Some assms have "exponent_ok r" by (simp add: floatnumber_ok_def)
      with r show ?thesis using exponent_no_hash by blast
    next
      case r1: (Some r1)
      note h1 = hash_in_lit_dot [OF r1 r]
      show ?thesis
      proof (cases "digitpart r1")
        case None
        with Some r1 assms have "exponent_ok r1" by (simp add: floatnumber_ok_def)
        with h1 show ?thesis using exponent_no_hash by blast
      next
        case r2: (Some r2)
        with Some r1 assms have "exponent_ok r2" by (simp add: floatnumber_ok_def)
        with hash_in_digitpart [OF r2 h1] show ?thesis using exponent_no_hash by blast
      qed
    qed
  next
    case None
    show ?thesis
    proof (cases "lit ''.'' s")
      case n: None
      with None assms show ?thesis by (simp add: floatnumber_ok_def)
    next
      case r1: (Some r1)
      note h1 = hash_in_lit_dot [OF r1 h]
      show ?thesis
      proof (cases "digitpart r1")
        case n: None
        with None r1 assms show ?thesis by (simp add: floatnumber_ok_def)
      next
        case r2: (Some r2)
        with None r1 assms have "exponent_ok r2" by (simp add: floatnumber_ok_def)
        with hash_in_digitpart [OF r2 h1] show ?thesis using exponent_no_hash by blast
      qed
    qed
  qed
qed

lemma lower_hash: "CHR ''#'' \<in> set t \<Longrightarrow> CHR ''#'' \<in> set (map lower t)"
proof -
  have "lower (CHR ''#'') = CHR ''#''"
    by (simp add: lower_def)
  then show "CHR ''#'' \<in> set t \<Longrightarrow> CHR ''#'' \<in> set (map lower t)"
    by force
qed

lemma py_float_no_hash: "CHR ''#'' \<in> set s \<Longrightarrow> \<not> py_float_ok s"
proof
  assume h: "CHR ''#'' \<in> set s" and ok: "py_float_ok s"
  let ?t = "drop_sign (strip s)"
  have t: "CHR ''#'' \<in> set ?t"
    using h by (simp add: hash_in_strip hash_in_drop_sign)
  then have m: "CHR ''#'' \<in> set (map lower ?t)"
    by (rule lower_hash)
  have "map lower ?t \<noteq> ''inf''" "map lower ?t \<noteq> ''infinity''" "map lower ?t \<noteq> ''nan''"
    using m by auto
  with ok have "floatnumber_ok ?t"
    by (simp add: py_float_ok_def Let_def)
  with t show False
    using floatnumber_no_hash by blast
qed

lemma search_first_hash: "search_first hash_at s = Some i \<Longrightarrow> CHR ''#'' \<in> set s"
proof (induction s)
  case Nil
  then show ?case by simp
next
  case (Cons c cs)
  show ?case
  proof (cases "hash_at (c # cs)")
    case None
    with Cons show ?thesis by simp
  next
    case (Some j)
    then have "c = CHR ''#''"
      by (simp add: hash_at_def split: if_splits)
    then show ?thesis by simp
  qed
qed

lemma ldc_equation:
  "simulate_instruction fmt \<lparr>offset = off, opcode = ''ldc'', operands = ops, line = src\<rparr> d =
     (case search_hash ops of
        None \<Rightarrow> Inl (AttributeError, d)
      | Some i \<Rightarrow> (case string_constants d i of
                     Some s \<Rightarrow> Inr (emit (''Loaded string constant: '' @ s) (push (VStr s) d))
                   | None \<Rightarrow> Inr (push VNone d)))"
proof (cases "search_hash ops")
  case None
  then show ?thesis by (simp add: simulate_instruction_def)
next
  case (Some i)
  then have "CHR ''#'' \<in> set (strip ops)"
    using search_first_hash [of ops i] hash_in_strip [of ops] by (simp add: search_hash_def)
  then have "\<not> py_float_ok (strip ops)"
    by (rule py_float_no_hash)
  with Some show ?thesis
    by (simp add: simulate_instruction_def split: option.splits)
qed

text \<open>
  Claim C3, as the program has it. A load-constant instruction searches its operand text
  for \<^verbatim>\<open>#digits\<close> first and calls \<^verbatim>\<open>.group\<close> on the result. When the text holds no such
  token the search yields nothing and the call raises \<^verbatim>\<open>AttributeError\<close>: on the operand
  \<^verbatim>\<open>42\<close>, a number, the instruction aborts instead of pushing 42. When the token is there,
  the pool's text is pushed if the index is in the pool; otherwise the number parse is
  tried on a text that holds \<^verbatim>\<open>#\<close>, always fails, and null is pushed.
\<close>

theorem ldc_behaviour:
  "simulate_instruction fmt \<lparr>offset = off, opcode = ''ldc'', operands = ops, line = src\<rparr> d =
     (case search_hash ops of
        None \<Rightarrow> Inl (AttributeError, d)
      | Some i \<Rightarrow> (case string_constants d i of
                     Some s \<Rightarrow> Inr (emit (''Loaded string constant: '' @ s) (push (VStr s) d))
                   | None \<Rightarrow> Inr (push VNone d))) \<and>
   simulate_instruction fmt \<lparr>offset = off, opcode = ''ldc'', operands = ''42'', line = src\<rparr> d =
     Inl (AttributeError, d) \<and>
   parse_bytecode ''0: ldc 42'' = [\<lparr>offset = 0, opcode = ''ldc'', operands = ''42'', line = None\<rparr>]"
proof -
  have "search_hash ''42'' = None"
    by (simp add: search_hash_def hash_at_def)
  moreover have "parse_bytecode ''0: ldc 42'' =
      [\<lparr>offset = 0, opcode = ''ldc'', operands = ''42'', line = None\<rparr>]"
    by code_simp
  ultimately show ?thesis
    using ldc_equation [where fmt = fmt and off = off and ops = ops and src = src and d = d]
      ldc_equation [where fmt = fmt and off = off and ops = "''42''" and src = src and d = d]
    by simp
qed

section \<open>The addition example\<close>

text \<open>
  Claim C2, as the program has it. The instruction pattern takes letters and underscores
  for the opcode, so the line \<^verbatim>\<open>0: iconst_5\<close> is parsed into the opcode \<^verbatim>\<open>iconst_\<close> with
  the operand text \<^verbatim>\<open>5\<close>, which the interpreter does not know and passes over. Parsing the
  three lines, resetting and stepping three times leaves the stack \<open>[10]\<close>: the byte push
  pushes 10 and the addition finds one operand only. On the three records with the opcode
  \<^verbatim>\<open>iconst_5\<close> spelled out, the same three steps leave \<open>[15]\<close>.
\<close>

theorem add_listing_run:
  "(case new_debugger add_listing of
      Inl e \<Rightarrow> False
    | Inr d \<Rightarrow>
        map opcode (instructions d) = [''iconst_'', ''bipush'', ''iadd''] \<and>
        map operands (instructions d) = [''5'', ''10'', []] \<and>
        (case steps fmt 3 (reset d) of Inl ex \<Rightarrow> False | Inr d' \<Rightarrow> stack d' = [VInt 10])) \<and>
   (case steps fmt 3 (reset (fresh [instr_of ''iconst_5'' [], instr_of ''bipush'' ''10'',
                                instr_of ''iadd'' []] Map.empty)) of
      Inl ex \<Rightarrow> False
    | Inr d' \<Rightarrow> stack d' = [VInt 15])"
  by code_simp

section \<open>Stepping through a stream\<close>

text \<open>
  What one simulated instruction and the state dump leave alone.
\<close>

lemma simulate_frame:
  assumes "simulate_instruction fmt i d = Inr d'"
  shows "instructions d' = instructions d \<and>
         current_instruction_index d' = current_instruction_index d \<and>
         execution_state d' = execution_state d \<and>
         breakpoints d' = breakpoints d \<and>
         last_breakpoint_hit d' = last_breakpoint_hit d \<and>
         string_constants d' = string_constants d"
  using assms
  by (auto simp: simulate_instruction_def binop_def istore_def emit_def push_def Let_def
           split: if_splits option.splits sum.splits)

lemma show_state_frame:
  "instructions (show_state d) = instructions d \<and>
   current_instruction_index (show_state d) = current_instruction_index d \<and>
   execution_state (show_state d) = execution_state d \<and>
   breakpoints (show_state d) = breakpoints d \<and>
   last_breakpoint_hit (show_state d) = last_breakpoint_hit d \<and>
   stack (show_state d) = stack d \<and> variables (show_state d) = variables d"
  by (simp add: show_state_def)

lemma step_at_end:
  "length (instructions d) \<le> current_instruction_index d \<Longrightarrow>
   step fmt d = Inr (d\<lparr>output_lines := output_lines d @ [''End of program reached.''],
                   execution_state := Stopped\<rparr>)"
  by (simp add: step_def emit_def)

lemma step_advances:
  assumes "current_instruction_index d < length (instructions d)" and "step fmt d = Inr d'"
  shows "current_instruction_index d' = current_instruction_index d + 1 \<and>
         instructions d' = instructions d \<and> execution_state d' = Paused"
proof -
  from assms obtain d2 d3 where d3: "simulate_instruction fmt (instructions d ! current_instruction_index d) d2 = Inr d3"
    and d': "d' = show_state (d3\<lparr>current_instruction_index := current_instruction_index d3 + 1\<rparr>)"
    and d2: "instructions d2 = instructions d \<and>
            current_instruction_index d2 = current_instruction_index d \<and>
            execution_state d2 = Paused"
    unfolding step_def Let_def
    by (auto simp: emit_def split: sum.splits option.splits if_splits)
  from simulate_frame [OF d3] d2 show ?thesis
    by (simp add: d' show_state_def)
qed

lemma steps_count:
  "steps fmt n d = Inr d' \<Longrightarrow> current_instruction_index d + n \<le> length (instructions d) \<Longrightarrow>
   current_instruction_index d' = current_instruction_index d + n \<and>
   instructions d' = instructions d \<and> (0 < n \<longrightarrow> execution_state d' = Paused)"
proof (induction n arbitrary: d)
  case 0
  then show ?case by simp
next
  case (Suc n)
  from Suc.prems(1) obtain d1 where s1: "step fmt d = Inr d1" and sn: "steps fmt n d1 = Inr d'"
    by (auto split: sum.splits)
  from Suc.prems(2) have lt: "current_instruction_index d < length (instructions d)"
    by simp
  note a = step_advances [OF lt s1]
  have "current_instruction_index d1 + n \<le> length (instructions d1)"
    using a Suc.prems(2) by simp
  from Suc.IH [OF sn this] a show ?case
    using sn by (cases n) auto
qed

text \<open>
  Claim C1, as the program has it. \<^verbatim>\<open>step()\<close> sets the execution state to \<open>paused\<close> before
  it looks at the program counter, and to \<open>stopped\<close> only in the call that finds the counter
  at the end of the stream. So when the \<open>N\<close> calls from a freshly reset state all return
  (no instruction raises), the program counter is \<open>N\<close> and the state is \<open>paused\<close> for
  \<open>N \<ge> 1\<close>, \<open>stopped\<close> for the empty stream. The next call appends
  \<^verbatim>\<open>End of program reached.\<close> to the trace and sets the state to \<open>stopped\<close>; stack,
  variables and program counter stay as they are. This holds for every formatting \<open>fmt\<close>
  of the host language. The witness runs a stream that formats nothing and, with a
  formatting that turns the text \<^verbatim>\<open>%d\<close> and 5 into \<^verbatim>\<open>5\<close>, the four instructions of
  \<^const>\<open>format_listing\<close>.
\<close>

theorem step_through_stream:
  assumes "steps fmt (length (instructions d)) (reset d) = Inr d'"
  shows "current_instruction_index d' = length (instructions d) \<and>
         instructions d' = instructions d \<and>
         execution_state d' = (if instructions d = [] then Stopped else Paused) \<and>
         step fmt d' = Inr (d'\<lparr>output_lines := output_lines d' @ [''End of program reached.''],
                            execution_state := Stopped\<rparr>)"
proof -
  have r: "current_instruction_index (reset d) = 0" "instructions (reset d) = instructions d"
    "execution_state (reset d) = Stopped"
    by (simp_all add: reset_def)
  have c: "current_instruction_index d' = length (instructions d) \<and>
           instructions d' = instructions d \<and>
           (0 < length (instructions d) \<longrightarrow> execution_state d' = Paused)"
    using steps_count [OF assms] r by simp
  have e: "instructions d = [] \<Longrightarrow> execution_state d' = Stopped"
    using assms r by simp
  have "length (instructions d') \<le> current_instruction_index d'"
    using c by simp
  from step_at_end [OF this] c e show ?thesis
    by auto
qed

theorem step_through_stream_witness:
  "\<forall>fmt. (\<exists>d'. steps fmt (length (instructions sweep_debugger)) (reset sweep_debugger) = Inr d' \<and>
     length (instructions sweep_debugger) = 3 \<and>
     current_instruction_index d' = 3 \<and>
     execution_state d' = Paused \<and>
     step fmt d' = Inr (d'\<lparr>output_lines := output_lines d' @ [''End of program reached.''],
                            execution_state := Stopped\<rparr>)) \<and>
     (case parse_constant_pool format_listing of
        Inl e \<Rightarrow> False
      | Inr pool \<Rightarrow> pool 2 = Some ''%d'') \<and>
     (case steps (\<lambda>s v. if s = ''%d'' \<and> v = VInt 5 then Inr ''5'' else fmt s v) 4
             (reset format_debugger) of
        Inl ex \<Rightarrow> False
      | Inr d4 \<Rightarrow> current_instruction_index d4 = 4 \<and> execution_state d4 = Paused \<and>
          stack d4 = [VStr ''5''])"
proof (intro allI)
  fix fmt :: formatter
  have f: "case parse_constant_pool format_listing of
        Inl e \<Rightarrow> False
      | Inr pool \<Rightarrow> pool 2 = Some ''%d''"
    by code_simp
  have g: "case steps (\<lambda>s v. if s = ''%d'' \<and> v = VInt 5 then Inr ''5'' else fmt s v) 4
             (reset format_debugger) of
        Inl ex \<Rightarrow> False
      | Inr d4 \<Rightarrow> current_instruction_index d4 = 4 \<and> execution_state d4 = Paused \<and>
          stack d4 = [VStr ''5'']"
    by code_simp
  have n: "length (instructions sweep_debugger) = 3"
    by code_simp
  have "case steps fmt 3 (reset sweep_debugger) of Inl ex \<Rightarrow> False | Inr d' \<Rightarrow> True"
    by code_simp
  then obtain d' where s: "steps fmt (length (instructions sweep_debugger)) (reset sweep_debugger) = Inr d'"
    using n by (auto split: sum.splits)
  from step_through_stream [OF s] n s
  have "\<exists>d'. steps fmt (length (instructions sweep_debugger)) (reset sweep_debugger) = Inr d' \<and>
     length (instructions sweep_debugger) = 3 \<and>
     current_instruction_index d' = 3 \<and>
     execution_state d' = Paused \<and>
     step fmt d' = Inr (d'\<lparr>output_lines := output_lines d' @ [''End of program reached.''],
                            execution_state := Stopped\<rparr>)"
    by auto
  with f g
  show "(\<exists>d'. steps fmt (length (instructions sweep_debugger)) (reset sweep_debugger) = Inr d' \<and>
     length (instructions sweep_debugger) = 3 \<and>
     current_instruction_index d' = 3 \<and>
     execution_state d' = Paused \<and>
     step fmt d' = Inr (d'\<lparr>output_lines := output_lines d' @ [''End of program reached.''],
                            execution_state := Stopped\<rparr>)) \<and>
     (case parse_constant_pool format_listing of
        Inl e \<Rightarrow> False
      | Inr pool \<Rightarrow> pool 2 = Some ''%d'') \<and>
     (case steps (\<lambda>s v. if s = ''%d'' \<and> v = VInt 5 then Inr ''5'' else fmt s v) 4
             (reset format_debugger) of
        Inl ex \<Rightarrow> False
      | Inr d4 \<Rightarrow> current_instruction_index d4 = 4 \<and> execution_state d4 = Paused \<and>
          stack d4 = [VStr ''5''])"
    by blast
qed

text \<open>
  The claim as it was stated has the state \<open>stopped\<close> after the \<open>N\<close>-th call. On the
  three instructions of \<^const>\<open>sweep_listing\<close> the third call leaves it \<open>paused\<close>.
\<close>

theorem step_through_stream_counterexample:
  "\<forall>fmt. length (instructions sweep_debugger) = 3 \<and>
     (case steps fmt 3 (reset sweep_debugger) of
        Inl ex \<Rightarrow> False
      | Inr d' \<Rightarrow> execution_state d' = Paused)"
proof (intro allI)
  fix fmt :: formatter
  show "length (instructions sweep_debugger) = 3 \<and>
     (case steps fmt 3 (reset sweep_debugger) of
        Inl ex \<Rightarrow> False
      | Inr d' \<Rightarrow> execution_state d' = Paused)"
    by code_simp
qed

section \<open>The parsed stream\<close>

lemma last_marker_single: "last_marker [l] = search_line l"
  by (cases "search_line l") (simp_all add: last_marker_def)

lemma last_marker_Cons:
  "last_marker (l # pre) =
     (case last_marker pre of Some n \<Rightarrow> Some n | None \<Rightarrow> search_line l)"
proof (cases "rev (filter (\<lambda>l. search_line l \<noteq> None) pre)")
  case Nil
  then show ?thesis
    by (cases "search_line l") (simp_all add: last_marker_def)
next
  case (Cons m ms)
  then have "m \<in> set (filter (\<lambda>l. search_line l \<noteq> None) pre)"
    by (metis list.set_intros(1) set_rev)
  then obtain n where "search_line m = Some n"
    by auto
  with Cons show ?thesis
    by (simp add: last_marker_def)
qed

lemma parse_loop_tagged:
  "parse_loop acc cur ls =
     acc @ concat (map (\<lambda>i. case instr_match (ls ! i) of
                         None \<Rightarrow> []
                       | Some (ds, op, rest) \<Rightarrow>
                           [\<lparr>offset = digits_to_int ds, opcode = op, operands = strip rest,
                             line = (case last_marker (take (Suc i) ls) of
                                       None \<Rightarrow> cur | Some n \<Rightarrow> Some n)\<rparr>])
                 [0..<length ls])"
  (is "_ = acc @ concat (map (?f cur ls) _)")
proof (induction ls arbitrary: acc cur)
  case Nil
  then show ?case by simp
next
  case (Cons l ls)
  have up: "[0..<length (l # ls)] = 0 # map Suc [0..<length ls]"
    by (simp add: upt_conv_Cons map_Suc_upt del: upt_Suc)
  define cur' where "cur' = (case search_line l of Some n \<Rightarrow> Some n | None \<Rightarrow> cur)"
  have tag: "(case last_marker (l # pre) of None \<Rightarrow> cur | Some n \<Rightarrow> Some n) =
             (case last_marker pre of None \<Rightarrow> cur' | Some n \<Rightarrow> Some n)" for pre
    by (simp add: last_marker_Cons cur'_def split: option.splits)
  have tag0: "(case last_marker [l] of None \<Rightarrow> cur | Some n \<Rightarrow> Some n) = cur'"
    by (simp add: last_marker_single cur'_def split: option.splits)
  have later: "?f cur (l # ls) \<circ> Suc = ?f cur' ls"
    by (rule ext) (simp add: tag cong: option.case_cong prod.case_cong)
  have first: "?f cur (l # ls) 0 =
     (case instr_match l of None \<Rightarrow> []
      | Some (ds, op, rest) \<Rightarrow>
          [\<lparr>offset = digits_to_int ds, opcode = op, operands = strip rest, line = cur'\<rparr>])"
    by (simp add: tag0 cong: option.case_cong prod.case_cong)
  have c: "concat (map (?f cur (l # ls)) [0..<length (l # ls)]) =
           ?f cur (l # ls) 0 @ concat (map (?f cur' ls) [0..<length ls])"
    unfolding up by (simp only: list.map map_map later concat.simps)
  show ?case
  proof (cases "instr_match l")
    case None
    then show ?thesis
      unfolding c first
      by (simp add: Let_def cur'_def [symmetric] Cons.IH [of acc cur'])
  next
    case (Some g)
    obtain ds op rest where g: "g = (ds, op, rest)"
      by (cases g) auto
    show ?thesis
      unfolding c first
      using Some g
      by (simp add: Let_def cur'_def [symmetric] Cons.IH)
  qed
qed

lemma parse_loop_matches:
  "map (\<lambda>i. (offset i, opcode i, operands i)) (parse_loop acc cur ls) =
     map (\<lambda>i. (offset i, opcode i, operands i)) acc @
     map (\<lambda>(ds, op, rest). (digits_to_int ds, op, strip rest)) (List.map_filter instr_match ls)"
proof (induction ls arbitrary: acc cur)
  case Nil
  then show ?case by simp
next
  case (Cons l ls)
  show ?case
  proof (cases "instr_match l")
    case None
    then show ?thesis by (simp add: Let_def Cons.IH)
  next
    case (Some g)
    obtain ds op rest where g: "g = (ds, op, rest)"
      by (cases g) auto
    with Some show ?thesis by (simp add: Let_def Cons.IH)
  qed
qed

lemma length_map_filter: "length (List.map_filter f xs) = length (filter (\<lambda>x. f x \<noteq> None) xs)"
  by (simp add: List.map_filter_def)

text \<open>
  Claim C5, as the program has it. The parser yields one record for every line that matches
  the instruction pattern and none for any other line, in the order of the lines; the
  offset is the number written on the line, the opcode and the operand text are those of
  the line. The marker pattern is applied to a line before the instruction pattern, so the
  tag of a record is the source line of the last marker found on the lines up to and
  including its own, and null when there is none.
\<close>

theorem parse_bytecode_tagged:
  "parse_bytecode text = tagged_instructions (split_nl text) \<and>
   map (\<lambda>i. (offset i, opcode i, operands i)) (parse_bytecode text) =
     map (\<lambda>(ds, op, rest). (digits_to_int ds, op, strip rest))
       (List.map_filter instr_match (split_nl text)) \<and>
   length (parse_bytecode text) = length (filter (\<lambda>l. instr_match l \<noteq> None) (split_nl text))"
proof -
  have i: "(case y of None \<Rightarrow> None | Some n \<Rightarrow> Some n) = y" for y :: "int option"
    by (cases y) simp_all
  have a: "parse_bytecode text = tagged_instructions (split_nl text)"
    by (simp add: parse_bytecode_def tagged_instructions_def parse_loop_tagged i
          cong: option.case_cong prod.case_cong)
  have b: "map (\<lambda>i. (offset i, opcode i, operands i)) (parse_bytecode text) =
     map (\<lambda>(ds, op, rest). (digits_to_int ds, op, strip rest))
       (List.map_filter instr_match (split_nl text))"
    by (simp add: parse_bytecode_def parse_loop_matches)
  have "length (map (\<lambda>i. (offset i, opcode i, operands i)) (parse_bytecode text)) =
        length (filter (\<lambda>l. instr_match l \<noteq> None) (split_nl text))"
    unfolding b by (simp add: length_map_filter)
  then have c: "length (parse_bytecode text) =
        length (filter (\<lambda>l. instr_match l \<noteq> None) (split_nl text))"
    by simp
  from a b c show ?thesis by blast
qed

theorem parse_bytecode_tagged_witness:
  "parse_bytecode sweep_listing =
     [\<lparr>offset = 10, opcode = ''nop'', operands = [], line = Some 3\<rparr>,
      \<lparr>offset = 11, opcode = ''bipush'', operands = ''4'', line = Some 3\<rparr>,
      \<lparr>offset = 12, opcode = ''nop'', operands = [], line = Some 3\<rparr>] \<and>
   tagged_instructions (split_nl sweep_listing) = parse_bytecode sweep_listing \<and>
   length (filter (\<lambda>l. instr_match l \<noteq> None) (split_nl sweep_listing)) = 3"
proof -
  have p: "parse_bytecode sweep_listing =
     [\<lparr>offset = 10, opcode = ''nop'', operands = [], line = Some 3\<rparr>,
      \<lparr>offset = 11, opcode = ''bipush'', operands = ''4'', line = Some 3\<rparr>,
      \<lparr>offset = 12, opcode = ''nop'', operands = [], line = Some 3\<rparr>]"
    by code_simp
  from parse_bytecode_tagged [of sweep_listing] p show ?thesis
    by simp
qed

text \<open>
  The claim as it was stated tags a record with the nearest marker before it. The line
  \<^verbatim>\<open>5: nop line 9:\<close> matches both patterns; no marker stands before it, yet its record
  is tagged with source line 9.
\<close>

theorem parse_bytecode_marker_counterexample:
  "parse_bytecode marker_listing =
     [\<lparr>offset = 5, opcode = ''nop'', operands = ''line 9:'', line = Some 9\<rparr>] \<and>
   strictly_tagged_instructions (split_nl marker_listing) =
     [\<lparr>offset = 5, opcode = ''nop'', operands = ''line 9:'', line = None\<rparr>]"
  by code_simp

section \<open>Resuming from a breakpoint\<close>

lemma exec_all_frame:
  "exec_all fmt xs d = Inr d' \<Longrightarrow>
   current_instruction_index d' = current_instruction_index d + length xs \<and>
   instructions d' = instructions d \<and> breakpoints d' = breakpoints d"
proof (induction xs arbitrary: d)
  case Nil
  then show ?case by simp
next
  case (Cons x xs)
  from Cons.prems obtain d1 where s: "simulate_instruction fmt x d = Inr d1"
    and r: "exec_all fmt xs (d1\<lparr>current_instruction_index := current_instruction_index d1 + 1\<rparr>) = Inr d'"
    by (auto split: sum.splits)
  from Cons.IH [OF r] simulate_frame [OF s] show ?case
    by simp
qed

lemma simulate_raise_frame:
  assumes "simulate_instruction fmt i d = Inl (e, d')"
  shows "instructions d' = instructions d \<and>
         current_instruction_index d' = current_instruction_index d \<and>
         execution_state d' = execution_state d"
  using assms
  by (auto simp: simulate_instruction_def binop_def istore_def emit_def push_def Let_def
           split: if_splits option.splits sum.splits)

lemma exec_all_raise:
  "exec_all fmt xs d = Inl (e, d') \<Longrightarrow>
   execution_state d' = execution_state d \<and>
   current_instruction_index d \<le> current_instruction_index d' \<and>
   current_instruction_index d' < current_instruction_index d + length xs"
proof (induction xs arbitrary: d)
  case Nil
  then show ?case by simp
next
  case (Cons x xs)
  show ?case
  proof (cases "simulate_instruction fmt x d")
    case (Inl ex)
    with Cons.prems have "simulate_instruction fmt x d = Inl (e, d')"
      by simp
    from simulate_raise_frame [OF this] show ?thesis
      by simp
  next
    case (Inr d1)
    with Cons.prems
    have r: "exec_all fmt xs (d1\<lparr>current_instruction_index := current_instruction_index d1 + 1\<rparr>)
             = Inl (e, d')"
      by simp
    from Cons.IH [OF r] simulate_frame [OF Inr] show ?thesis
      by simp
  qed
qed

lemma next_stop_end: "length instrs \<le> i \<Longrightarrow> next_stop bps instrs i = i"
  by (simp add: next_stop_def)

lemma next_stop_hit:
  "i < length instrs \<Longrightarrow> offset (instrs ! i) \<in> set bps \<Longrightarrow> next_stop bps instrs i = i"
  by (simp add: next_stop_def Cons_nth_drop_Suc [symmetric])

lemma next_stop_miss:
  "i < length instrs \<Longrightarrow> offset (instrs ! i) \<notin> set bps \<Longrightarrow>
   next_stop bps instrs i = next_stop bps instrs (Suc i)"
  by (simp add: next_stop_def Cons_nth_drop_Suc [symmetric])

lemma next_stop_bounds: "i \<le> next_stop bps instrs i \<and> next_stop bps instrs i \<le> max i (length instrs)"
proof -
  have "length (takeWhile (\<lambda>ins. offset ins \<notin> set bps) (drop i instrs)) \<le> length (drop i instrs)"
    by (rule length_takeWhile_le)
  then show ?thesis by (auto simp: next_stop_def)
qed

lemma next_stop_is_breakpoint:
  assumes "next_stop bps instrs i < length instrs"
  shows "offset (instrs ! next_stop bps instrs i) \<in> set bps"
proof -
  let ?P = "\<lambda>ins. offset ins \<notin> set bps"
  let ?n = "length (takeWhile ?P (drop i instrs))"
  from assms have "?n < length (drop i instrs)"
    by (simp add: next_stop_def)
  then have "\<not> ?P (drop i instrs ! ?n)"
    by (rule nth_length_takeWhile)
  moreover have "drop i instrs ! ?n = instrs ! (i + ?n)"
    using assms by (simp add: next_stop_def)
  ultimately show ?thesis by (simp add: next_stop_def)
qed

lemma next_stop_none_before:
  assumes "i \<le> k" and "k < next_stop bps instrs i"
  shows "offset (instrs ! k) \<notin> set bps"
proof -
  let ?P = "\<lambda>ins. offset ins \<notin> set bps"
  let ?n = "length (takeWhile ?P (drop i instrs))"
  from assms have k: "k - i < ?n"
    by (simp add: next_stop_def)
  then have "takeWhile ?P (drop i instrs) ! (k - i) \<in> set (takeWhile ?P (drop i instrs))"
    by (rule nth_mem)
  then have "?P (takeWhile ?P (drop i instrs) ! (k - i))"
    by (rule set_takeWhileD [THEN conjunct2])
  moreover have "takeWhile ?P (drop i instrs) ! (k - i) = drop i instrs ! (k - i)"
    using k by (rule takeWhile_nth)
  moreover have "k - i < length (drop i instrs)"
    using k length_takeWhile_le [of ?P "drop i instrs"] by linarith
  ultimately show ?thesis
    using assms(1) by simp
qed

lemma run_loop_sweep:
  assumes "instrs = instructions d" and "bps = breakpoints d"
    and "i = current_instruction_index d" and "j = next_stop bps instrs i"
  shows "run_loop fmt False d =
     (case exec_all fmt (take (j - i) (drop i instrs)) d of
        Inl ex \<Rightarrow> Inl ex
      | Inr d1 \<Rightarrow>
          Inr (show_state
                 (if j < length instrs
                  then d1\<lparr>execution_state := Paused,
                          last_breakpoint_hit := Some (offset (instrs ! j))\<rparr>
                  else d1\<lparr>execution_state := Stopped\<rparr>)))"
  using assms
proof (induction "length instrs - i" arbitrary: d i rule: less_induct)
  case less
  note p = less.prems(1,2,3) [symmetric]
  note jdef = less.prems(4)
  show ?case
  proof (cases "i < length instrs")
    case False
    then have "j = i"
      using jdef by (simp add: next_stop_end)
    with False show ?thesis
      by (simp add: run_loop.simps [of fmt False d] p)
  next
    case True
    show ?thesis
    proof (cases "offset (instrs ! i) \<in> set bps")
      case hit: True
      then have "j = i"
        using jdef True by (simp add: next_stop_hit)
      with True hit show ?thesis
        by (simp add: run_loop.simps [of fmt False d] p)
    next
      case miss: False
      have j: "j = next_stop bps instrs (Suc i)"
        using jdef True miss by (simp add: next_stop_miss)
      then have lt: "i < j"
        using next_stop_bounds [of "Suc i" bps instrs] by simp
      have tk: "take (j - i) (drop i instrs) = (instrs ! i) # take (j - Suc i) (drop (Suc i) instrs)"
        using True lt by (simp add: Cons_nth_drop_Suc [symmetric] take_Cons')
      show ?thesis
      proof (cases "simulate_instruction fmt (instrs ! i) d")
        case (Inl ex)
        with True miss show ?thesis
          by (simp add: run_loop.simps [of fmt False d] tk p)
      next
        case (Inr d')
        define d2 where "d2 = d'\<lparr>current_instruction_index := current_instruction_index d' + 1\<rparr>"
        note f = simulate_frame [OF Inr]
        have d2: "instrs = instructions d2" "bps = breakpoints d2" "Suc i = current_instruction_index d2"
          using f by (simp_all add: d2_def p)
        have m: "length instrs - Suc i < length instrs - i"
          using True by simp
        note ih = less.hyps [OF m d2 j]
        have "run_loop fmt False d = run_loop fmt False d2"
          using Inr True miss by (simp add: run_loop.simps [of fmt False d] d2_def p)
        also note ih
        also have "exec_all fmt (take (j - i) (drop i instrs)) d =
                   exec_all fmt (take (j - Suc i) (drop (Suc i) instrs)) d2"
          unfolding tk using Inr by (simp add: d2_def)
        then have "(case exec_all fmt (take (j - Suc i) (drop (Suc i) instrs)) d2 of
             Inl ex \<Rightarrow> Inl ex
           | Inr d1 \<Rightarrow>
               Inr (show_state
                      (if j < length instrs
                       then d1\<lparr>execution_state := Paused,
                               last_breakpoint_hit := Some (offset (instrs ! j))\<rparr>
                       else d1\<lparr>execution_state := Stopped\<rparr>))) =
          (case exec_all fmt (take (j - i) (drop i instrs)) d of
             Inl ex \<Rightarrow> Inl ex
           | Inr d1 \<Rightarrow>
               Inr (show_state
                      (if j < length instrs
                       then d1\<lparr>execution_state := Paused,
                               last_breakpoint_hit := Some (offset (instrs ! j))\<rparr>
                       else d1\<lparr>execution_state := Stopped\<rparr>)))"
          by simp
        finally show ?thesis .
      qed
    qed
  qed
qed

text \<open>
  Claim C6, as the program has it. Let the current instruction, at index \<open>i\<close>, have the
  offset recorded as the last breakpoint hit, and let \<open>j\<close> be the index of the first
  instruction behind \<open>i\<close> whose offset is a breakpoint (the length of the stream when there
  is none). Then \<^verbatim>\<open>run_to_next_breakpoint()\<close> does not halt at \<open>i\<close>: it simulates the
  instructions \<open>i\<close> to \<open>j - 1\<close> in order. When none of them raises, the call returns with
  the program counter \<open>j\<close>; if \<open>j\<close> is inside the stream the state is \<open>paused\<close> and the
  offset at \<open>j\<close> is recorded as the last breakpoint hit, otherwise the stream is drained and
  the state is \<open>stopped\<close>. When one of them raises, the exception leaves the call: the
  state stays \<open>running\<close> and the program counter stays on the raising instruction, before
  \<open>j\<close>. The exemption holds for the one instruction at \<open>i\<close> only: a later instruction with
  the same offset halts the sweep like any other breakpoint. This holds for every
  formatting \<open>fmt\<close> of the host language.
\<close>

theorem resume_skips_current_breakpoint:
  assumes "i = current_instruction_index d" and "i < length (instructions d)"
    and "last_breakpoint_hit d = Some (offset (instructions d ! i))"
    and "j = next_stop (breakpoints d) (instructions d) (Suc i)"
  shows "run_to_next_breakpoint fmt d =
     (case exec_all fmt (take (j - i) (drop i (instructions d)))
             (d\<lparr>execution_state := Running, output_lines := []\<rparr>) of
        Inl ex \<Rightarrow> Inl ex
      | Inr d1 \<Rightarrow>
          Inr (show_state
                 (if j < length (instructions d)
                  then d1\<lparr>execution_state := Paused,
                          last_breakpoint_hit := Some (offset (instructions d ! j))\<rparr>
                  else d1\<lparr>execution_state := Stopped\<rparr>))) \<and>
     i < j \<and> j \<le> length (instructions d) \<and>
     (j < length (instructions d) \<longrightarrow> offset (instructions d ! j) \<in> set (breakpoints d)) \<and>
     (\<forall>k. i < k \<and> k < j \<longrightarrow> offset (instructions d ! k) \<notin> set (breakpoints d)) \<and>
     (\<forall>d1. exec_all fmt (take (j - i) (drop i (instructions d)))
             (d\<lparr>execution_state := Running, output_lines := []\<rparr>) = Inr d1 \<longrightarrow>
           current_instruction_index d1 = j) \<and>
     (\<forall>e d1. exec_all fmt (take (j - i) (drop i (instructions d)))
             (d\<lparr>execution_state := Running, output_lines := []\<rparr>) = Inl (e, d1) \<longrightarrow>
           execution_state d1 = Running \<and> i \<le> current_instruction_index d1 \<and>
           current_instruction_index d1 < j)"
proof -
  define instrs where "instrs = instructions d"
  define bps where "bps = breakpoints d"
  define d0 where "d0 = d\<lparr>execution_state := Running, output_lines := []\<rparr>"
  define x where "x = instrs ! i"
  have d0: "instructions d0 = instrs" "breakpoints d0 = bps" "current_instruction_index d0 = i"
    "last_breakpoint_hit d0 = Some (offset x)"
    using assms(1,3) by (simp_all add: d0_def instrs_def bps_def x_def)
  have len: "i < length instrs"
    using assms(2) by (simp add: instrs_def)
  have j: "j = next_stop bps instrs (Suc i)"
    using assms(4) by (simp add: instrs_def bps_def)
  have bounds: "i < j" "j \<le> length instrs"
    using next_stop_bounds [of "Suc i" bps instrs] len j by auto
  have tk: "take (j - i) (drop i instrs) = x # take (j - Suc i) (drop (Suc i) instrs)"
    using len bounds by (simp add: x_def Cons_nth_drop_Suc [symmetric] take_Cons')
  have first: "run_to_next_breakpoint fmt d =
     (case simulate_instruction fmt x d0 of
        Inl ex \<Rightarrow> Inl ex
      | Inr d' \<Rightarrow> run_loop fmt False
                   (d'\<lparr>current_instruction_index := current_instruction_index d' + 1\<rparr>))"
    using len d0
    by (simp add: run_to_next_breakpoint_def d0_def [symmetric] Let_def x_def
          run_loop.simps [of fmt _ d0])
  have run: "run_to_next_breakpoint fmt d =
     (case exec_all fmt (take (j - i) (drop i instrs)) d0 of
        Inl ex \<Rightarrow> Inl ex
      | Inr d1 \<Rightarrow>
          Inr (show_state
                 (if j < length instrs
                  then d1\<lparr>execution_state := Paused,
                          last_breakpoint_hit := Some (offset (instrs ! j))\<rparr>
                  else d1\<lparr>execution_state := Stopped\<rparr>)))"
  proof (cases "simulate_instruction fmt x d0")
    case (Inl ex)
    then show ?thesis
      unfolding first tk by simp
  next
    case (Inr d')
    define d2 where "d2 = d'\<lparr>current_instruction_index := current_instruction_index d' + 1\<rparr>"
    note f = simulate_frame [OF Inr]
    have d2: "instrs = instructions d2" "bps = breakpoints d2" "Suc i = current_instruction_index d2"
      using f d0 by (simp_all add: d2_def)
    have "run_to_next_breakpoint fmt d = run_loop fmt False d2"
      unfolding first using Inr by (simp add: d2_def)
    also note run_loop_sweep [OF d2 j]
    also have e: "exec_all fmt (take (j - Suc i) (drop (Suc i) instrs)) d2 =
                  exec_all fmt (take (j - i) (drop i instrs)) d0"
      unfolding tk using Inr by (simp add: d2_def)
    finally show ?thesis .
  qed
  have idx: "current_instruction_index d1 = j"
    if "exec_all fmt (take (j - i) (drop i instrs)) d0 = Inr d1" for d1
    using exec_all_frame [OF that] d0 bounds len by simp
  have hit: "j < length instrs \<Longrightarrow> offset (instrs ! j) \<in> set bps"
    unfolding j by (rule next_stop_is_breakpoint)
  have before: "offset (instrs ! k) \<notin> set bps" if "i < k" "k < j" for k
    using next_stop_none_before [of "Suc i" k bps instrs] that j by simp
  have raised: "execution_state d1 = Running \<and> i \<le> current_instruction_index d1 \<and>
                current_instruction_index d1 < j"
    if "exec_all fmt (take (j - i) (drop i instrs)) d0 = Inl (e, d1)" for e d1
  proof -
    have "length (take (j - i) (drop i instrs)) = j - i"
      using bounds by simp
    moreover have "execution_state d0 = Running"
      by (simp add: d0_def)
    ultimately show ?thesis
      using exec_all_raise [OF that] d0 bounds by simp
  qed
  from run bounds hit before idx raised show ?thesis
    unfolding instrs_def bps_def d0_def by blast
qed

theorem resume_skips_current_breakpoint_witness:
  "\<forall>fmt. current_instruction_index sweep_debugger = 0 \<and>
   map offset (instructions sweep_debugger) = [10, 11, 12] \<and>
   breakpoints sweep_debugger = [10, 12] \<and>
   last_breakpoint_hit sweep_debugger = Some 10 \<and>
   next_stop [10, 12] (instructions sweep_debugger) 1 = 2 \<and>
   (\<exists>d'. run_to_next_breakpoint fmt sweep_debugger = Inr d' \<and>
      current_instruction_index d' = 2 \<and> execution_state d' = Paused \<and>
      last_breakpoint_hit d' = Some 12 \<and> stack d' = [VInt 4]) \<and>
   map offset (instructions again_debugger) = [10, 11, 10] \<and>
   (\<exists>d'. run_to_next_breakpoint fmt again_debugger = Inr d' \<and>
      current_instruction_index d' = 2 \<and> execution_state d' = Paused \<and>
      last_breakpoint_hit d' = Some 10) \<and>
   (case run_to_next_breakpoint (\<lambda>s v. if s = ''%d'' \<and> v = VInt 5 then Inr ''5'' else fmt s v)
           format_debugger of
      Inl ex \<Rightarrow> False
    | Inr d3 \<Rightarrow> current_instruction_index d3 = 3 \<and> execution_state d3 = Paused \<and>
        last_breakpoint_hit d3 = Some 3 \<and> stack d3 = [VStr ''5''])"
proof (intro allI)
  fix fmt :: formatter
  have g: "case run_to_next_breakpoint (\<lambda>s v. if s = ''%d'' \<and> v = VInt 5 then Inr ''5'' else fmt s v)
           format_debugger of
      Inl ex \<Rightarrow> False
    | Inr d3 \<Rightarrow> current_instruction_index d3 = 3 \<and> execution_state d3 = Paused \<and>
        last_breakpoint_hit d3 = Some 3 \<and> stack d3 = [VStr ''5'']"
    by code_simp
  have b2: "map offset (instructions again_debugger) = [10, 11, 10]"
    by code_simp
  have r2: "case run_to_next_breakpoint fmt again_debugger of
             Inl ex \<Rightarrow> False
           | Inr d' \<Rightarrow> current_instruction_index d' = 2 \<and> execution_state d' = Paused \<and>
               last_breakpoint_hit d' = Some 10"
    by code_simp
  have a: "current_instruction_index sweep_debugger = 0"
    and b: "map offset (instructions sweep_debugger) = [10, 11, 12]"
    and c: "breakpoints sweep_debugger = [10, 12]"
    and h: "last_breakpoint_hit sweep_debugger = Some 10"
    and n: "next_stop [10, 12] (instructions sweep_debugger) 1 = 2"
    by code_simp+
  have r: "case run_to_next_breakpoint fmt sweep_debugger of
             Inl ex \<Rightarrow> False
           | Inr d' \<Rightarrow> current_instruction_index d' = 2 \<and> execution_state d' = Paused \<and>
               last_breakpoint_hit d' = Some 12 \<and> stack d' = [VInt 4]"
    by code_simp
  have l: "0 < length (instructions sweep_debugger)"
    using b by auto
  have h': "last_breakpoint_hit sweep_debugger = Some (offset (instructions sweep_debugger ! 0))"
    using b h by (cases "instructions sweep_debugger") auto
  have j: "2 = next_stop (breakpoints sweep_debugger) (instructions sweep_debugger) (Suc 0)"
    using n c by simp
  note t = resume_skips_current_breakpoint [OF a [symmetric] l h' j, where fmt = fmt]
  from r r2 t a b b2 c h n
  have "current_instruction_index sweep_debugger = 0 \<and>
   map offset (instructions sweep_debugger) = [10, 11, 12] \<and>
   breakpoints sweep_debugger = [10, 12] \<and>
   last_breakpoint_hit sweep_debugger = Some 10 \<and>
   next_stop [10, 12] (instructions sweep_debugger) 1 = 2 \<and>
   (\<exists>d'. run_to_next_breakpoint fmt sweep_debugger = Inr d' \<and>
      current_instruction_index d' = 2 \<and> execution_state d' = Paused \<and>
      last_breakpoint_hit d' = Some 12 \<and> stack d' = [VInt 4]) \<and>
   map offset (instructions again_debugger) = [10, 11, 10] \<and>
   (\<exists>d'. run_to_next_breakpoint fmt again_debugger = Inr d' \<and>
      current_instruction_index d' = 2 \<and> execution_state d' = Paused \<and>
      last_breakpoint_hit d' = Some 10)"
    by (auto split: sum.splits)
  with g
  show "current_instruction_index sweep_debugger = 0 \<and>
   map offset (instructions sweep_debugger) = [10, 11, 12] \<and>
   breakpoints sweep_debugger = [10, 12] \<and>
   last_breakpoint_hit sweep_debugger = Some 10 \<and>
   next_stop [10, 12] (instructions sweep_debugger) 1 = 2 \<and>
   (\<exists>d'. run_to_next_breakpoint fmt sweep_debugger = Inr d' \<and>
      current_instruction_index d' = 2 \<and> execution_state d' = Paused \<and>
      last_breakpoint_hit d' = Some 12 \<and> stack d' = [VInt 4]) \<and>
   map offset (instructions again_debugger) = [10, 11, 10] \<and>
   (\<exists>d'. run_to_next_breakpoint fmt again_debugger = Inr d' \<and>
      current_instruction_index d' = 2 \<and> execution_state d' = Paused \<and>
      last_breakpoint_hit d' = Some 10) \<and>
   (case run_to_next_breakpoint (\<lambda>s v. if s = ''%d'' \<and> v = VInt 5 then Inr ''5'' else fmt s v)
           format_debugger of
      Inl ex \<Rightarrow> False
    | Inr d3 \<Rightarrow> current_instruction_index d3 = 3 \<and> execution_state d3 = Paused \<and>
        last_breakpoint_hit d3 = Some 3 \<and> stack d3 = [VStr ''5''])"
    by blast
qed

text \<open>
  The claim as it was stated has every resumed sweep end \<open>paused\<close> or \<open>stopped\<close>. The
  session \<^const>\<open>zero_debugger\<close> pushes 7 and 0 and divides at offset 2. Its first sweep
  pauses on the breakpoint at offset 2. The resumed sweep passes that breakpoint, executes
  the division and raises \<^verbatim>\<open>ZeroDivisionError\<close>; the state is left \<open>running\<close> and the program
  counter on the division.
\<close>

theorem resume_raises_counterexample:
  "\<forall>fmt. (case run_to_next_breakpoint fmt zero_debugger of
      Inl ex \<Rightarrow> False
    | Inr d1 \<Rightarrow>
        current_instruction_index d1 = 2 \<and> offset (instructions d1 ! 2) = 2 \<and>
        last_breakpoint_hit d1 = Some 2 \<and> execution_state d1 = Paused \<and>
        (case run_to_next_breakpoint fmt d1 of
           Inl (e, d2) \<Rightarrow> e = ZeroDivisionError \<and> execution_state d2 = Running \<and>
             current_instruction_index d2 = 2
         | Inr d2 \<Rightarrow> False))"
proof (intro allI)
  fix fmt :: formatter
  show "case run_to_next_breakpoint fmt zero_debugger of
      Inl ex \<Rightarrow> False
    | Inr d1 \<Rightarrow>
        current_instruction_index d1 = 2 \<and> offset (instructions d1 ! 2) = 2 \<and>
        last_breakpoint_hit d1 = Some 2 \<and> execution_state d1 = Paused \<and>
        (case run_to_next_breakpoint fmt d1 of
           Inl (e, d2) \<Rightarrow> e = ZeroDivisionError \<and> execution_state d2 = Running \<and>
             current_instruction_index d2 = 2
         | Inr d2 \<Rightarrow> False)"
    by code_simp
qed

section \<open>The constant pool\<close>

lemma lit_hash: "lit ''#'' s = Some r \<Longrightarrow> s = CHR ''#'' # r"
  by (cases s) (auto simp: lit_def split: if_splits)

lemma digits1_nonempty: "digits1 s = Some r \<Longrightarrow> takeWhile is_digit s \<noteq> []"
  by (simp add: digits1_def split: if_splits)

lemma hash_at_of_prefix:
  "lit ''#'' s = Some s1 \<Longrightarrow> digits1 s1 = Some s2 \<Longrightarrow> hash_at s \<noteq> None"
  using lit_hash [of s s1] digits1_nonempty [of s1 s2] by (simp add: hash_at_def)

lemma string_match_hash: "string_match_at s = Some v \<Longrightarrow> hash_at s \<noteq> None"
  unfolding string_match_at_def
  by (cases "lit ''#'' s"; cases "digits1 (the (lit ''#'' s))") (auto dest: hash_at_of_prefix)

lemma utf8_match_hash: "utf8_match_at s = Some v \<Longrightarrow> hash_at s \<noteq> None"
  unfolding utf8_match_at_def
  by (cases "lit ''#'' s"; cases "digits1 (the (lit ''#'' s))") (auto dest: hash_at_of_prefix)

lemma search_first_hash_of_match:
  assumes "\<forall>s v. m s = Some v \<longrightarrow> hash_at s \<noteq> None"
  shows "search_first m l = Some v \<Longrightarrow> search_hash l \<noteq> None"
  unfolding search_hash_def
proof (induction l)
  case Nil
  then show ?case by simp
next
  case (Cons c cs)
  show ?case
  proof (cases "m (c # cs)")
    case None
    with Cons show ?thesis by (cases "hash_at (c # cs)") auto
  next
    case (Some w)
    with assms have "hash_at (c # cs) \<noteq> None" by blast
    then show ?thesis by auto
  qed
qed

lemma cp_entry_eq:
  assumes "\<forall>s v. m s = Some v \<longrightarrow> hash_at s \<noteq> None"
  shows "cp_entry (search_first m) l pool =
     Inr (pool ++ map_of (case search_hash l of
                              None \<Rightarrow> []
                            | Some i \<Rightarrow> (case search_first m l of
                                           None \<Rightarrow> [] | Some v \<Rightarrow> [(i, v)])))"
proof (cases "search_first m l")
  case None
  then show ?thesis by (simp add: cp_entry_def split: option.splits)
next
  case (Some v)
  have "search_hash l \<noteq> None"
    using assms Some by (rule search_first_hash_of_match)
  then obtain i where "search_hash l = Some i"
    by auto
  with Some show ?thesis by (simp add: cp_entry_def map_add_def fun_eq_iff)
qed

lemma cp_line_eq:
  "(case cp_entry (search_first string_match_at) l pool of
      Inl e \<Rightarrow> Inl e
    | Inr c1 \<Rightarrow> (case cp_entry (search_first utf8_match_at) l c1 of
                   Inl e \<Rightarrow> Inl e
                 | Inr c2 \<Rightarrow> cp_loop True c2 ls)) =
   cp_loop True (pool ++ map_of (rev (line_entries l))) ls"
proof -
  have "pool ++ map_of (rev (line_entries l)) =
        pool ++ map_of (case search_hash l of
                              None \<Rightarrow> []
                            | Some i \<Rightarrow> (case search_first string_match_at l of
                                           None \<Rightarrow> [] | Some v \<Rightarrow> [(i, v)]))
               ++ map_of (case search_hash l of
                              None \<Rightarrow> []
                            | Some i \<Rightarrow> (case search_first utf8_match_at l of
                                           None \<Rightarrow> [] | Some v \<Rightarrow> [(i, v)]))"
    by (simp add: line_entries_def split: option.splits)
  then show ?thesis
    using string_match_hash utf8_match_hash
    by (simp add: cp_entry_eq [of string_match_at] cp_entry_eq [of utf8_match_at])
qed

lemma cp_loop_eq:
  "cp_loop inp pool ls = Inr (pool ++ map_of (rev (region_entries inp ls)))"
proof (induction ls arbitrary: inp pool)
  case Nil
  then show ?case by simp
next
  case (Cons l ls)
  show ?case
    by (simp add: cp_line_eq Cons.IH)
qed

lemma map_of_rev_last_wins:
  assumes "i \<notin> fst ` set es2"
  shows "map_of (rev (es1 @ (i, v) # es2)) i = Some v"
proof -
  have "map_of (rev es2) i = None"
    using assms by (simp add: map_of_eq_None_iff)
  then show ?thesis
    by (simp add: map_add_def)
qed

text \<open>
  Claim C8, as the program has it. The extractor never raises, and the pool it builds is
  the list of the entries of the region read from the back: for an index with several
  entries the last one stays. An entry's value is the text behind the comment sign as it
  is written, so the entry \<^verbatim>\<open>#7 = String #3 // "Hi"\<close> gives index 7 the four characters
  \<^verbatim>\<open>"Hi"\<close>, quotation marks included, and a load-constant instruction whose operand
  text names that index pushes this text.
\<close>

theorem constant_pool_later_entry_wins:
  assumes "region_entries False (split_nl text) = es1 @ (i, v) # es2" and "i \<notin> fst ` set es2"
  shows "parse_constant_pool text = Inr (map_of (rev (region_entries False (split_nl text)))) \<and>
         map_of (rev (region_entries False (split_nl text))) i = Some v \<and>
         (string_constants d = map_of (rev (region_entries False (split_nl text))) \<and>
          search_hash ops = Some i \<longrightarrow>
            simulate_instruction fmt \<lparr>offset = off, opcode = ''ldc'', operands = ops, line = src\<rparr> d =
              Inr (emit (''Loaded string constant: '' @ v) (push (VStr v) d))) \<and>
         line_entries (''#7 = String #3 // '' @ [CHR 0x22] @ ''Hi'' @ [CHR 0x22]) =
           [(7, [CHR 0x22] @ ''Hi'' @ [CHR 0x22])] \<and>
         search_hash ''#7'' = Some 7"
proof -
  have a: "parse_constant_pool text = Inr (map_of (rev (region_entries False (split_nl text))))"
    by (simp add: parse_constant_pool_def cp_loop_eq)
  have b: "map_of (rev (region_entries False (split_nl text))) i = Some v"
    unfolding assms(1) using assms(2) by (rule map_of_rev_last_wins)
  have c: "simulate_instruction fmt \<lparr>offset = off, opcode = ''ldc'', operands = ops, line = src\<rparr> d =
              Inr (emit (''Loaded string constant: '' @ v) (push (VStr v) d))"
    if "string_constants d = map_of (rev (region_entries False (split_nl text)))"
      and "search_hash ops = Some i"
    using that b by (simp add: ldc_equation)
  have e: "line_entries (''#7 = String #3 // '' @ [CHR 0x22] @ ''Hi'' @ [CHR 0x22]) =
           [(7, [CHR 0x22] @ ''Hi'' @ [CHR 0x22])]"
    by code_simp
  have f: "search_hash ''#7'' = Some 7"
    by code_simp
  from a b c e f show ?thesis by blast
qed

theorem constant_pool_later_entry_wins_witness:
  "\<forall>fmt.
   region_entries False (split_nl pool_listing) = [(7, [CHR 0x22] @ ''Hi'' @ [CHR 0x22])] \<and>
   (\<exists>pool. parse_constant_pool pool_listing = Inr pool \<and>
      pool 7 = Some ([CHR 0x22] @ ''Hi'' @ [CHR 0x22])) \<and>
   region_entries False (split_nl twice_listing) = [(7, ''first''), (7, ''second'')] \<and>
   (\<exists>pool. parse_constant_pool twice_listing = Inr pool \<and> pool 7 = Some ''second'') \<and>
   (case new_debugger pool_listing of
      Inl e \<Rightarrow> False
    | Inr d \<Rightarrow> (case steps fmt 1 (reset d) of
                  Inl ex \<Rightarrow> False
                | Inr d' \<Rightarrow> stack d' = [VStr ([CHR 0x22] @ ''Hi'' @ [CHR 0x22])]))"
proof (intro allI)
  fix fmt :: formatter
  have p: "region_entries False (split_nl pool_listing) = [] @ (7, [CHR 0x22] @ ''Hi'' @ [CHR 0x22]) # []"
    by code_simp
  have t: "region_entries False (split_nl twice_listing) = [(7, ''first'')] @ (7, ''second'') # []"
    by code_simp
  have s: "case new_debugger pool_listing of
      Inl e \<Rightarrow> False
    | Inr d \<Rightarrow> (case steps fmt 1 (reset d) of
                  Inl ex \<Rightarrow> False
                | Inr d' \<Rightarrow> stack d' = [VStr ([CHR 0x22] @ ''Hi'' @ [CHR 0x22])])"
    by code_simp
  from constant_pool_later_entry_wins [OF p] constant_pool_later_entry_wins [OF t] p t s
  show "region_entries False (split_nl pool_listing) = [(7, [CHR 0x22] @ ''Hi'' @ [CHR 0x22])] \<and>
   (\<exists>pool. parse_constant_pool pool_listing = Inr pool \<and>
      pool 7 = Some ([CHR 0x22] @ ''Hi'' @ [CHR 0x22])) \<and>
   region_entries False (split_nl twice_listing) = [(7, ''first''), (7, ''second'')] \<and>
   (\<exists>pool. parse_constant_pool twice_listing = Inr pool \<and> pool 7 = Some ''second'') \<and>
   (case new_debugger pool_listing of
      Inl e \<Rightarrow> False
    | Inr d \<Rightarrow> (case steps fmt 1 (reset d) of
                  Inl ex \<Rightarrow> False
                | Inr d' \<Rightarrow> stack d' = [VStr ([CHR 0x22] @ ''Hi'' @ [CHR 0x22])]))"
    by simp
qed

text \<open>
  The claim as it was stated has index 7 mapped to the two characters \<^verbatim>\<open>Hi\<close>.
\<close>

theorem constant_pool_entry_counterexample:
  "(case parse_constant_pool pool_listing of
      Inl e \<Rightarrow> False
    | Inr pool \<Rightarrow> pool 7 = Some [CHR 0x22, CHR ''H'', CHR ''i'', CHR 0x22]) \<and>
   \<not> (case parse_constant_pool pool_listing of
        Inl e \<Rightarrow> False
      | Inr pool \<Rightarrow> pool 7 = Some ''Hi'')"
  by code_simp

end
